theory Spec2Isabelle
  imports Complex_Main "HOL-Library.Sublist"
begin

section \<open>Data model (types.ts, constants.ts)\<close>

text \<open>
  JavaScript numbers are modelled as \<^typ>\<open>real\<close> where the code computes with
  fractions (battery, costs) and as \<^typ>\<open>int\<close> where they are grid coordinates.
  NaN and rounding of IEEE doubles are outside the model.
\<close>

datatype CellType = EMPTY | WALL | DEBRIS | FIRE | VICTIM | START

datatype RobotStatus =
  IDLE | SCANNING | PLANNING | MOVING | ACTING | CRITICAL | EMERGENCY_STOP | RECHARGING

text \<open>\<open>Coordinates\<close> is the pair \<open>(x, y)\<close>.\<close>

type_synonym Coordinates = "int \<times> int"

record Cell =
  cell_x :: int
  cell_y :: int
  ctype :: CellType
  revealed :: bool
  difficulty :: real

text \<open>The numeric fields of \<open>RobotConfig\<close>; id, name and description play no role.\<close>

record RobotConfig =
  speedMultiplier :: real
  batteryDrainRate :: real
  maxHealth :: real

definition GRID_SIZE :: int where
  "GRID_SIZE = 15"

definition MAX_BATTERY :: real where
  "MAX_BATTERY = 100"

definition MAX_HEALTH :: real where
  "MAX_HEALTH = 100"

definition CHARGING_RATE :: real where
  "CHARGING_RATE = 10"

fun MOVEMENT_COST :: "CellType \<Rightarrow> real" where
  "MOVEMENT_COST EMPTY = 1"
| "MOVEMENT_COST START = 1"
| "MOVEMENT_COST DEBRIS = 3"
| "MOVEMENT_COST WALL = 999"
| "MOVEMENT_COST FIRE = 5"
| "MOVEMENT_COST VICTIM = 1"

definition COST_PER_STEP :: real where
  "COST_PER_STEP = 0.5"

definition COST_PER_BATTERY_PERCENT :: real where
  "COST_PER_BATTERY_PERCENT = 5"

definition VALUE_PER_RESCUE :: real where
  "VALUE_PER_RESCUE = 5000"

definition VALUE_PER_HAZARD_CLEARED :: real where
  "VALUE_PER_HAZARD_CLEARED = 1500"

text \<open>JavaScript's \<open>v || d\<close> on numbers: the default replaces a falsy \<open>0\<close>.\<close>

definition orDefault :: "real \<Rightarrow> real \<Rightarrow> real" where
  "orDefault v d = (if v = 0 then d else v)"

text \<open>\<open>robotConfig?.field || 1.0\<close>: an absent profile or a zero field gives \<open>1.0\<close>.\<close>

definition configOr :: "(RobotConfig \<Rightarrow> real) \<Rightarrow> RobotConfig option \<Rightarrow> real" where
  "configOr field robotConfig =
     (case robotConfig of None \<Rightarrow> 1 | Some c \<Rightarrow> orDefault (field c) 1)"

section \<open>Control executor (services/navigation.ts, executeControlStep)\<close>

record ControlResult =
  success :: bool
  newBattery :: real
  message :: "string option"

text \<open>The local constant \<open>drain\<close> of \<open>executeControlStep\<close>.\<close>

definition drain :: "CellType \<Rightarrow> RobotConfig option \<Rightarrow> real" where
  "drain cellType robotConfig =
     0.5 * orDefault (MOVEMENT_COST cellType) 1
         * configOr speedMultiplier robotConfig
         * configOr batteryDrainRate robotConfig"

definition executeControlStep ::
  "Coordinates \<Rightarrow> Coordinates \<Rightarrow> real \<Rightarrow> CellType \<Rightarrow> RobotConfig option \<Rightarrow> ControlResult" where
  "executeControlStep currentPos nextPos currentBattery cellType robotConfig =
     (if cellType = WALL
      then \<lparr>success = False, newBattery = currentBattery,
            message = Some ''COLLISION DETECTED''\<rparr>
      else \<lparr>success = True,
            newBattery = max 0 (currentBattery - drain cellType robotConfig),
            message = None\<rparr>)"

section \<open>Properties of the control executor\<close>

lemma MOVEMENT_COST_pos: "0 < MOVEMENT_COST t"
  by (cases t) simp_all

lemma orDefault_MOVEMENT_COST: "orDefault (MOVEMENT_COST t) 1 = MOVEMENT_COST t"
  using MOVEMENT_COST_pos [of t] by (simp add: orDefault_def)

lemma drain_Some:
  assumes "speedMultiplier c \<noteq> 0" and "batteryDrainRate c \<noteq> 0"
  shows "drain t (Some c) = 0.5 * MOVEMENT_COST t * speedMultiplier c * batteryDrainRate c"
  using assms by (simp add: drain_def configOr_def orDefault_def orDefault_MOVEMENT_COST [unfolded orDefault_def])

text \<open>
  Claim C5. A step onto a Wall cell fails, leaves the battery as it was and reports a
  collision, for every pair of positions, battery level and profile (present or absent).
  The function sees only the type of the target cell, so the answer is the same for a
  revealed and for an unrevealed Wall cell.
\<close>

theorem executeControlStep_wall:
  "executeControlStep currentPos nextPos battery WALL robotConfig
     = \<lparr>success = False, newBattery = battery, message = Some ''COLLISION DETECTED''\<rparr>
   \<and> executeControlStep currentPos nextPos battery
        (ctype (cell\<lparr>ctype := WALL, revealed := r\<rparr>)) robotConfig
     = \<lparr>success = False, newBattery = battery, message = Some ''COLLISION DETECTED''\<rparr>"
  by (simp add: executeControlStep_def)

lemma drain_None: "drain t None = 0.5 * MOVEMENT_COST t"
  by (simp add: drain_def configOr_def orDefault_MOVEMENT_COST)

lemma drain_mono_speed:
  assumes "0 < speedMultiplier c" and "0 < batteryDrainRate c"
    and "speedMultiplier c < speedMultiplier c'" and "batteryDrainRate c' = batteryDrainRate c"
  shows "drain t (Some c) < drain t (Some c')"
proof -
  have k: "0 < 0.5 * MOVEMENT_COST t"
    using MOVEMENT_COST_pos [of t] by simp
  have "0.5 * MOVEMENT_COST t * speedMultiplier c < 0.5 * MOVEMENT_COST t * speedMultiplier c'"
    using k assms(3) by (rule mult_strict_left_mono [rotated])
  then have "0.5 * MOVEMENT_COST t * speedMultiplier c * batteryDrainRate c
      < 0.5 * MOVEMENT_COST t * speedMultiplier c' * batteryDrainRate c"
    using assms(2) by (rule mult_strict_right_mono)
  then show ?thesis
    using assms by (simp add: drain_Some)
qed

lemma drain_mono_rate:
  assumes "0 < speedMultiplier c" and "0 < batteryDrainRate c"
    and "batteryDrainRate c < batteryDrainRate c'" and "speedMultiplier c' = speedMultiplier c"
  shows "drain t (Some c) < drain t (Some c')"
proof -
  have k: "0 < 0.5 * MOVEMENT_COST t * speedMultiplier c"
    using MOVEMENT_COST_pos [of t] assms(1) by simp
  have "0.5 * MOVEMENT_COST t * speedMultiplier c * batteryDrainRate c
      < 0.5 * MOVEMENT_COST t * speedMultiplier c * batteryDrainRate c'"
    using k assms(3) by (rule mult_strict_left_mono [rotated])
  then show ?thesis
    using assms by (simp add: drain_Some)
qed

text \<open>
  Claim C6. For a target cell that is not a Wall and a profile with positive
  \<open>speedMultiplier\<close> and \<open>batteryDrainRate\<close> (the data model's ranges are
  \<open>[0.5, 2.0]\<close> and \<open>[0.5, 1.5]\<close>), the step succeeds and the new battery is
  \<open>max 0 (battery - 0.5 * cost * speedMultiplier * batteryDrainRate)\<close>. On an Empty
  cell the drain is exactly \<open>0.5\<close> for multipliers \<open>1.0, 1.0\<close> and exactly
  \<open>1.0\<close> for \<open>2.0, 1.0\<close>. The drain is strictly increasing in each multiplier with
  the other held fixed, and so is the battery actually lost whenever the battery covers
  the larger drain. An absent profile counts as multipliers \<open>1.0, 1.0\<close>.
\<close>

theorem executeControlStep_move:
  assumes "cellType \<noteq> WALL"
    and "0 < speedMultiplier cfg" and "0 < batteryDrainRate cfg"
  shows
    "executeControlStep currentPos nextPos battery cellType (Some cfg)
       = \<lparr>success = True,
          newBattery = max 0 (battery
            - 0.5 * MOVEMENT_COST cellType * speedMultiplier cfg * batteryDrainRate cfg),
          message = None\<rparr>
     \<and> executeControlStep currentPos nextPos battery cellType None
       = \<lparr>success = True, newBattery = max 0 (battery - 0.5 * MOVEMENT_COST cellType),
          message = None\<rparr>
     \<and> drain EMPTY (Some \<lparr>speedMultiplier = 1, batteryDrainRate = 1, maxHealth = mh\<rparr>) = 0.5
     \<and> drain EMPTY (Some \<lparr>speedMultiplier = 2, batteryDrainRate = 1, maxHealth = mh\<rparr>) = 1
     \<and> (0.5 \<le> battery \<longrightarrow>
          newBattery (executeControlStep currentPos nextPos battery EMPTY
            (Some \<lparr>speedMultiplier = 1, batteryDrainRate = 1, maxHealth = mh\<rparr>))
            = battery - 0.5)
     \<and> (1 \<le> battery \<longrightarrow>
          newBattery (executeControlStep currentPos nextPos battery EMPTY
            (Some \<lparr>speedMultiplier = 2, batteryDrainRate = 1, maxHealth = mh\<rparr>))
            = battery - 1)
     \<and> (\<forall>cfg'. ((speedMultiplier cfg < speedMultiplier cfg'
                  \<and> batteryDrainRate cfg' = batteryDrainRate cfg)
               \<or> (batteryDrainRate cfg < batteryDrainRate cfg'
                  \<and> speedMultiplier cfg' = speedMultiplier cfg)) \<longrightarrow>
            drain cellType (Some cfg) < drain cellType (Some cfg')
            \<and> (drain cellType (Some cfg') \<le> battery \<longrightarrow>
                 newBattery (executeControlStep currentPos nextPos battery cellType (Some cfg'))
                 < newBattery (executeControlStep currentPos nextPos battery cellType (Some cfg))))"
proof -
  have nz: "speedMultiplier cfg \<noteq> 0" "batteryDrainRate cfg \<noteq> 0"
    using assms by simp_all
  have a: "executeControlStep currentPos nextPos battery cellType (Some cfg)
       = \<lparr>success = True,
          newBattery = max 0 (battery
            - 0.5 * MOVEMENT_COST cellType * speedMultiplier cfg * batteryDrainRate cfg),
          message = None\<rparr>"
    using assms(1) by (simp add: executeControlStep_def drain_Some [OF nz])
  have b: "executeControlStep currentPos nextPos battery cellType None
       = \<lparr>success = True, newBattery = max 0 (battery - 0.5 * MOVEMENT_COST cellType),
          message = None\<rparr>"
    using assms(1) by (simp add: executeControlStep_def drain_None)
  have c: "drain EMPTY (Some \<lparr>speedMultiplier = 1, batteryDrainRate = 1, maxHealth = mh\<rparr>) = 0.5"
    by (simp add: drain_Some)
  have d: "drain EMPTY (Some \<lparr>speedMultiplier = 2, batteryDrainRate = 1, maxHealth = mh\<rparr>) = 1"
    by (simp add: drain_Some)
  have e: "0.5 \<le> battery \<longrightarrow>
          newBattery (executeControlStep currentPos nextPos battery EMPTY
            (Some \<lparr>speedMultiplier = 1, batteryDrainRate = 1, maxHealth = mh\<rparr>))
            = battery - 0.5"
    by (simp add: executeControlStep_def c)
  have f: "1 \<le> battery \<longrightarrow>
          newBattery (executeControlStep currentPos nextPos battery EMPTY
            (Some \<lparr>speedMultiplier = 2, batteryDrainRate = 1, maxHealth = mh\<rparr>))
            = battery - 1"
    by (simp add: executeControlStep_def d)
  have g: "drain cellType (Some cfg) < drain cellType (Some cfg')
            \<and> (drain cellType (Some cfg') \<le> battery \<longrightarrow>
                 newBattery (executeControlStep currentPos nextPos battery cellType (Some cfg'))
                 < newBattery (executeControlStep currentPos nextPos battery cellType (Some cfg)))"
    if h: "(speedMultiplier cfg < speedMultiplier cfg'
                  \<and> batteryDrainRate cfg' = batteryDrainRate cfg)
               \<or> (batteryDrainRate cfg < batteryDrainRate cfg'
                  \<and> speedMultiplier cfg' = speedMultiplier cfg)" for cfg'
  proof -
    have lt: "drain cellType (Some cfg) < drain cellType (Some cfg')"
      using h assms(2,3) drain_mono_speed [of cfg cfg' cellType]
        drain_mono_rate [of cfg cfg' cellType] by blast
    then show ?thesis
      using assms(1) by (simp add: executeControlStep_def)
  qed
  show ?thesis
    using a b c d e f g by blast
qed

definition standardProfile :: RobotConfig where
  "standardProfile = \<lparr>speedMultiplier = 1, batteryDrainRate = 1, maxHealth = 100\<rparr>"

definition fastProfile :: RobotConfig where
  "fastProfile = \<lparr>speedMultiplier = 2, batteryDrainRate = 1, maxHealth = 100\<rparr>"

theorem executeControlStep_move_witness:
  "DEBRIS \<noteq> WALL \<and> 0 < speedMultiplier standardProfile \<and> 0 < batteryDrainRate standardProfile
   \<and> executeControlStep (0, 0) (1, 0) 100 DEBRIS (Some standardProfile)
       = \<lparr>success = True, newBattery = 98.5, message = None\<rparr>
   \<and> drain DEBRIS (Some standardProfile) < drain DEBRIS (Some fastProfile)
   \<and> newBattery (executeControlStep (0, 0) (1, 0) 100 DEBRIS (Some fastProfile))
       < newBattery (executeControlStep (0, 0) (1, 0) 100 DEBRIS (Some standardProfile))"
proof -
  have h: "DEBRIS \<noteq> WALL" "0 < speedMultiplier standardProfile"
    "0 < batteryDrainRate standardProfile"
    by (simp_all add: standardProfile_def)
  have d: "drain DEBRIS (Some fastProfile) \<le> 100"
    by (simp add: drain_Some fastProfile_def)
  have s: "(speedMultiplier standardProfile < speedMultiplier fastProfile
      \<and> batteryDrainRate fastProfile = batteryDrainRate standardProfile)
     \<or> (batteryDrainRate standardProfile < batteryDrainRate fastProfile
      \<and> speedMultiplier fastProfile = speedMultiplier standardProfile)"
    by (simp add: standardProfile_def fastProfile_def)
  note t = executeControlStep_move [OF h, of "(0, 0)" "(1, 0)" 100 100]
  have a: "executeControlStep (0, 0) (1, 0) 100 DEBRIS (Some standardProfile)
       = \<lparr>success = True, newBattery = 98.5, message = None\<rparr>"
    using t by (simp add: standardProfile_def)
  have g: "drain DEBRIS (Some standardProfile) < drain DEBRIS (Some fastProfile)
     \<and> (drain DEBRIS (Some fastProfile) \<le> 100 \<longrightarrow>
        newBattery (executeControlStep (0, 0) (1, 0) 100 DEBRIS (Some fastProfile))
        < newBattery (executeControlStep (0, 0) (1, 0) 100 DEBRIS (Some standardProfile)))"
    using t s by blast
  show ?thesis
    using h a g d by blast
qed

section \<open>Telemetry aggregator (services/telemetry.ts, updateMetrics)\<close>

text \<open>
  \<open>Math.round\<close> rounds half up. A zero \<open>totalCells\<close> makes the rate NaN or
  Infinity in JavaScript; the model records that as \<open>None\<close>.
\<close>

record SimulationMetrics =
  stepsTaken :: int
  batteryHistory :: "(int \<times> real) list"
  explorationRate :: "(int \<times> int option) list"
  operationalCost :: real
  valueGenerated :: real

definition jsRound :: "real \<Rightarrow> int" where
  "jsRound v = \<lfloor>v + 1 / 2\<rfloor>"

definition updateMetrics ::
  "SimulationMetrics \<Rightarrow> real \<Rightarrow> int \<Rightarrow> int \<Rightarrow> int \<Rightarrow> int \<Rightarrow> SimulationMetrics" where
  "updateMetrics currentMetrics batteryLevel exploredCount totalCells victims fires =
     (let step = stepsTaken currentMetrics + 1;
          batteryUsed = MAX_BATTERY - batteryLevel
      in \<lparr>stepsTaken = step,
          batteryHistory = batteryHistory currentMetrics @ [(step, batteryLevel)],
          explorationRate = explorationRate currentMetrics @
            [(step, if totalCells = 0 then None
                    else Some (jsRound (of_int exploredCount / of_int totalCells * 100)))],
          operationalCost =
            of_int step * COST_PER_STEP + batteryUsed * COST_PER_BATTERY_PERCENT,
          valueGenerated =
            of_int victims * VALUE_PER_RESCUE + of_int fires * VALUE_PER_HAZARD_CLEARED\<rparr>)"

definition initialMetrics :: SimulationMetrics where
  "initialMetrics =
     \<lparr>stepsTaken = 0, batteryHistory = [(0, 100)], explorationRate = [(0, Some 0)],
      operationalCost = 0, valueGenerated = 0\<rparr>"

type_synonym MetricsArgs = "real \<times> int \<times> int \<times> int \<times> int"

definition argBattery :: "MetricsArgs \<Rightarrow> real" where
  "argBattery a = fst a"

definition argVictims :: "MetricsArgs \<Rightarrow> int" where
  "argVictims a = fst (snd (snd (snd a)))"

definition argFires :: "MetricsArgs \<Rightarrow> int" where
  "argFires a = snd (snd (snd (snd a)))"

definition updateWith :: "SimulationMetrics \<Rightarrow> MetricsArgs \<Rightarrow> SimulationMetrics" where
  "updateWith m a = (case a of (b, e, t, v, f) \<Rightarrow> updateMetrics m b e t v f)"

fun metricsRun :: "SimulationMetrics \<Rightarrow> MetricsArgs list \<Rightarrow> SimulationMetrics list" where
  "metricsRun m [] = []"
| "metricsRun m (a # as) = updateWith m a # metricsRun (updateWith m a) as"

lemma updateWith_simps:
  "stepsTaken (updateWith m a) = stepsTaken m + 1"
  "operationalCost (updateWith m a) = (of_int (stepsTaken m) + 1) / 2 + (100 - argBattery a) * 5"
  "valueGenerated (updateWith m a) = of_int (argVictims a) * 5000 + of_int (argFires a) * 1500"
  by (simp_all add: updateWith_def updateMetrics_def Let_def argBattery_def argVictims_def
      argFires_def MAX_BATTERY_def COST_PER_STEP_def COST_PER_BATTERY_PERCENT_def
      VALUE_PER_RESCUE_def VALUE_PER_HAZARD_CLEARED_def split: prod.splits)

lemma value_run:
  "successively (\<lambda>a b. argVictims a \<le> argVictims b \<and> argFires a \<le> argFires b) (a # as) \<Longrightarrow>
   successively (\<le>) (map valueGenerated (updateWith m a # metricsRun (updateWith m a) as))"
proof (induction as arbitrary: m a)
  case Nil
  then show ?case by simp
next
  case (Cons b bs)
  have "successively (\<le>) (map valueGenerated
      (updateWith (updateWith m a) b # metricsRun (updateWith (updateWith m a) b) bs))"
    using Cons.prems by (intro Cons.IH) simp
  moreover have "valueGenerated (updateWith m a) \<le> valueGenerated (updateWith (updateWith m a) b)"
    using Cons.prems by (simp add: updateWith_simps)
  ultimately show ?case by simp
qed

lemma cost_run:
  "successively (\<le>) (map operationalCost (updateWith m a # metricsRun (updateWith m a) as))
   \<longleftrightarrow> successively (\<lambda>a b. argBattery b \<le> argBattery a + 1 / 10) (a # as)"
proof (induction as arbitrary: m a)
  case Nil
  then show ?case by simp
next
  case (Cons b bs)
  have "operationalCost (updateWith m a) \<le> operationalCost (updateWith (updateWith m a) b)
      \<longleftrightarrow> argBattery b \<le> argBattery a + 1 / 10"
    by (simp add: updateWith_simps) argo
  then show ?case
    using Cons.IH [of "updateWith m a" b] by simp
qed


lemma sorted_successively: "sorted xs \<longleftrightarrow> successively (\<le>) xs"
  for xs :: "real list"
  by (rule successively_conv_sorted_wrt [symmetric]) (simp add: transp_on_def)

text \<open>
  Claim C2, as amended. From the initial metrics, over any sequence of updates whose
  battery levels are at most 100 and whose rescue and fire counters are non-negative and
  non-decreasing: \<open>valueGenerated\<close> is non-decreasing, and \<open>operationalCost\<close> is
  non-decreasing exactly when no call's battery level exceeds the previous call's by more
  than \<open>0.1\<close> (one step's cost divided by the cost of a battery percent). The cost is
  computed from the current battery level, so a battery that rises lowers it.
\<close>

theorem updateMetrics_monotone:
  assumes "\<forall>a \<in> set inputs. argBattery a \<le> 100 \<and> 0 \<le> argVictims a \<and> 0 \<le> argFires a"
    and "successively (\<lambda>a b. argVictims a \<le> argVictims b \<and> argFires a \<le> argFires b) inputs"
  shows "sorted (map valueGenerated (initialMetrics # metricsRun initialMetrics inputs))
     \<and> (sorted (map operationalCost (initialMetrics # metricsRun initialMetrics inputs))
          \<longleftrightarrow> successively (\<lambda>a b. argBattery b \<le> argBattery a + 1 / 10) inputs)"
proof (cases inputs)
  case Nil
  then show ?thesis by simp
next
  case (Cons a as)
  have a: "argBattery a \<le> 100" "0 \<le> argVictims a" "0 \<le> argFires a"
    using assms(1) Cons by simp_all
  have v0: "valueGenerated initialMetrics \<le> valueGenerated (updateWith initialMetrics a)"
    using a by (simp add: updateWith_simps) (simp add: initialMetrics_def)
  have c0: "operationalCost initialMetrics \<le> operationalCost (updateWith initialMetrics a)"
    using a by (simp add: updateWith_simps) (simp add: initialMetrics_def)
  have v: "successively (\<le>) (map valueGenerated (metricsRun initialMetrics inputs))"
    using value_run [of a as initialMetrics] assms(2) Cons by simp
  have c: "successively (\<le>) (map operationalCost (metricsRun initialMetrics inputs))
      \<longleftrightarrow> successively (\<lambda>a b. argBattery b \<le> argBattery a + 1 / 10) inputs"
    using cost_run [of initialMetrics a as] Cons by simp
  show ?thesis
    unfolding sorted_successively using v0 c0 v c Cons by simp
qed

definition drainingInputs :: "MetricsArgs list" where
  "drainingInputs = [(90, 10, 225, 0, 0), (80, 20, 225, 1, 0), (80, 20, 225, 1, 1)]"

theorem updateMetrics_monotone_witness:
  "list_all (\<lambda>a. argBattery a \<le> 100 \<and> 0 \<le> argVictims a \<and> 0 \<le> argFires a) drainingInputs
   \<and> sorted (map valueGenerated (initialMetrics # metricsRun initialMetrics drainingInputs))
   \<and> sorted (map operationalCost (initialMetrics # metricsRun initialMetrics drainingInputs))"
proof -
  have h: "\<forall>a \<in> set drainingInputs. argBattery a \<le> 100 \<and> 0 \<le> argVictims a \<and> 0 \<le> argFires a"
    by (simp add: drainingInputs_def argBattery_def argVictims_def argFires_def)
  have s: "successively (\<lambda>a b. argVictims a \<le> argVictims b \<and> argFires a \<le> argFires b)
      drainingInputs"
    by (simp add: drainingInputs_def argVictims_def argFires_def)
  have b: "successively (\<lambda>a b. argBattery b \<le> argBattery a + 1 / 10) drainingInputs"
    by (simp add: drainingInputs_def argBattery_def)
  show ?thesis
    using updateMetrics_monotone [OF h s] h b by (simp add: list_all_iff)
qed

text \<open>
  The claim as stated fails: the battery at 50 and then, recharged, at 100 takes
  \<open>operationalCost\<close> from 250.5 down to 1.
\<close>

theorem updateMetrics_cost_counterexample:
  "operationalCost (updateMetrics initialMetrics 50 10 225 0 0) = 250.5
   \<and> operationalCost (updateMetrics (updateMetrics initialMetrics 50 10 225 0 0) 100 10 225 0 0) = 1
   \<and> \<not> sorted (map operationalCost
        (initialMetrics # metricsRun initialMetrics [(50, 10, 225, 0, 0), (100, 10, 225, 0, 0)]))"
  by (simp add: updateWith_def updateMetrics_def initialMetrics_def MAX_BATTERY_def
      COST_PER_STEP_def COST_PER_BATTERY_PERCENT_def Let_def)

section \<open>Decision orchestrator (services/geminiService.ts, getDecisionFromGemini)\<close>

datatype Action = MOVE | RESCUE | EXTINGUISH | EXPLORE | RECHARGE

datatype Priority = HIGH | MEDIUM | LOW

record DecisionResponse =
  reasoning :: string
  action :: Action
  targetCoordinates :: "Coordinates option"
  priority :: Priority

text \<open>
  The function handles values the type checker knows nothing about: what the oracle
  throws is typed \<open>any\<close>, and what \<open>JSON.parse\<close> returns is cast to
  \<open>DecisionResponse\<close> without a check. Both are modelled as JavaScript values: the
  primitives, arrays, and objects as lists of fields. Functions are left out, so no
  value of the model is callable.
\<close>

datatype JsValue =
  JsUndefined
| JsNull
| JsBool bool
| JsNumber real
| JsString string
| JsArray "JsValue list"
| JsObject "(string \<times> JsValue) list"

datatype JsException = TypeError

text \<open>
  \<open>v.key\<close>: a TypeError on \<open>null\<close> and \<open>undefined\<close>, the field of an object,
  and \<open>undefined\<close> where the value has no such property (for the keys read here, every
  primitive and every array).
\<close>

fun getProp :: "JsValue \<Rightarrow> string \<Rightarrow> JsException + JsValue" where
  "getProp JsUndefined key = Inl TypeError"
| "getProp JsNull key = Inl TypeError"
| "getProp (JsObject fs) key =
     Inr (case map_of fs key of None \<Rightarrow> JsUndefined | Some v \<Rightarrow> v)"
| "getProp v key = Inr JsUndefined"

text \<open>Whether a value counts as true in a condition.\<close>

fun truthy :: "JsValue \<Rightarrow> bool" where
  "truthy JsUndefined = False"
| "truthy JsNull = False"
| "truthy (JsBool b) = b"
| "truthy (JsNumber n) = (n \<noteq> 0)"
| "truthy (JsString s) = (s \<noteq> [])"
| "truthy (JsArray xs) = True"
| "truthy (JsObject fs) = True"

text \<open>\<open>s.includes(sub)\<close> on strings.\<close>

fun jsIncludes :: "string \<Rightarrow> string \<Rightarrow> bool" where
  "jsIncludes [] sub = (sub = [])"
| "jsIncludes (c # cs) sub = (prefix sub (c # cs) \<or> jsIncludes cs sub)"

text \<open>
  \<open>v.includes(sub)\<close> for a string \<open>sub\<close>: the substring test on a string, the
  membership test on an array, and a TypeError on every other value, which has no
  method of that name.
\<close>

fun callIncludes :: "JsValue \<Rightarrow> string \<Rightarrow> JsException + bool" where
  "callIncludes (JsString s) sub = Inr (jsIncludes s sub)"
| "callIncludes (JsArray xs) sub = Inr (JsString sub \<in> set xs)"
| "callIncludes v sub = Inl TypeError"

text \<open>
  The expression that defines \<open>isRateLimit\<close> in the \<open>catch\<close> block, evaluated left
  to right with its short cuts: \<open>Inl\<close> is the TypeError it throws, \<open>Inr\<close> whether
  its value counts as true.
\<close>

definition isRateLimit :: "JsValue \<Rightarrow> JsException + bool" where
  "isRateLimit error =
     (case getProp error ''status'' of
        Inl x \<Rightarrow> Inl x
      | Inr st \<Rightarrow>
          if st = JsNumber 429 then Inr True
          else
            (case getProp error ''code'' of
               Inl x \<Rightarrow> Inl x
             | Inr cd \<Rightarrow>
                 if cd = JsNumber 429 then Inr True
                 else
                   (case getProp error ''message'' of
                      Inl x \<Rightarrow> Inl x
                    | Inr m \<Rightarrow>
                        if \<not> truthy m then Inr False
                        else
                          (case callIncludes m ''429'' of
                             Inl x \<Rightarrow> Inl x
                           | Inr True \<Rightarrow> Inr True
                           | Inr False \<Rightarrow>
                               (case callIncludes m ''quota'' of
                                  Inl x \<Rightarrow> Inl x
                                | Inr True \<Rightarrow> Inr True
                                | Inr False \<Rightarrow> callIncludes m ''RESOURCE_EXHAUSTED'')))))"

text \<open>
  One attempt's outcome inside the \<open>try\<close> block: the call to the oracle throws the
  given value; the response has no text; \<open>JSON.parse\<close> throws a SyntaxError with the
  given message; or the text parses to the given value.
\<close>

datatype OracleReply =
  Rejected JsValue
| EmptyText
| Malformed string
| Parsed JsValue

text \<open>An \<open>Error\<close> object as the \<open>catch\<close> block reads it: its message.\<close>

definition errorObject :: "string \<Rightarrow> JsValue" where
  "errorObject msg = JsObject [(''message'', JsString msg)]"

text \<open>
  The \<open>try\<close> block on one reply: \<open>Inl\<close> is the value thrown into the
  \<open>catch\<close> block, \<open>Inr\<close> the value returned, which is whatever the text parsed
  to.
\<close>

fun tryAttempt :: "OracleReply \<Rightarrow> JsValue + JsValue" where
  "tryAttempt (Rejected e) = Inl e"
| "tryAttempt EmptyText = Inl (errorObject ''Empty response payload from Intelligence Layer'')"
| "tryAttempt (Malformed m) = Inl (errorObject m)"
| "tryAttempt (Parsed v) = Inr v"

definition maxAttempts :: nat where
  "maxAttempts = 3"

definition fallbackDecision :: JsValue where
  "fallbackDecision =
     JsObject
       [(''reasoning'', JsString ''Communication fault or Rate Limit with AI Core. Initiating fallback exploration.''),
        (''action'', JsString ''EXPLORE''),
        (''priority'', JsString ''LOW'')]"

definition timeoutDecision :: JsValue where
  "timeoutDecision =
     JsObject
       [(''reasoning'', JsString ''System Timeout. Fallback active.''),
        (''action'', JsString ''EXPLORE''),
        (''priority'', JsString ''LOW'')]"

text \<open>
  How the call ends, together with what it did on the way: \<open>Inr\<close> is the value the
  promise resolves to and \<open>Inl\<close> the exception it rejects with, which is the
  exception the caller sees; then the number of calls to the oracle and the delays (in
  milliseconds) waited, in order.
\<close>

record DecisionTrace =
  returned :: "JsException + JsValue"
  oracleCalls :: nat
  waits :: "nat list"

text \<open>
  The \<open>while (attempts < maxAttempts)\<close> loop. The oracle is the sequence of replies it
  gives to successive calls; \<open>calls\<close> counts the calls made so far. An exception
  thrown inside the \<open>catch\<close> block is not caught by anything.
\<close>

function getDecisionLoop ::
  "(nat \<Rightarrow> OracleReply) \<Rightarrow> nat \<Rightarrow> nat \<Rightarrow> nat \<Rightarrow> nat list \<Rightarrow> DecisionTrace" where
  "getDecisionLoop oracle attempts backoff calls ws =
     (if attempts < maxAttempts then
        (case tryAttempt (oracle calls) of
           Inr v \<Rightarrow> \<lparr>returned = Inr v, oracleCalls = calls + 1, waits = ws\<rparr>
         | Inl error \<Rightarrow>
             (case isRateLimit error of
                Inl x \<Rightarrow> \<lparr>returned = Inl x, oracleCalls = calls + 1, waits = ws\<rparr>
              | Inr rateLimit \<Rightarrow>
                  if rateLimit \<and> attempts + 1 < maxAttempts
                  then getDecisionLoop oracle (attempts + 1) (backoff * 2) (calls + 1)
                         (ws @ [backoff])
                  else \<lparr>returned = Inr fallbackDecision, oracleCalls = calls + 1,
                         waits = ws\<rparr>))
      else \<lparr>returned = Inr timeoutDecision, oracleCalls = calls, waits = ws\<rparr>)"
  by pat_completeness auto
termination
  by (relation "measure (\<lambda>(oracle, attempts, backoff, calls, ws). maxAttempts - attempts)") auto

declare getDecisionLoop.simps [simp del]

definition getDecisionFromGemini :: "(nat \<Rightarrow> OracleReply) \<Rightarrow> DecisionTrace" where
  "getDecisionFromGemini oracle = getDecisionLoop oracle 0 2000 0 []"

text \<open>
  The shape the interface \<open>DecisionResponse\<close> of types.ts describes: an object with a
  string \<open>reasoning\<close>, one of the five actions, one of the three priorities and, if
  present, target coordinates with numeric \<open>x\<close> and \<open>y\<close>.
\<close>

definition isCoordinates :: "JsValue \<Rightarrow> bool" where
  "isCoordinates v =
     (case v of
        JsObject fs \<Rightarrow>
          (case map_of fs ''x'' of Some (JsNumber n) \<Rightarrow> True | _ \<Rightarrow> False)
          \<and> (case map_of fs ''y'' of Some (JsNumber n) \<Rightarrow> True | _ \<Rightarrow> False)
      | _ \<Rightarrow> False)"

definition isDecision :: "JsValue \<Rightarrow> bool" where
  "isDecision v =
     (case v of
        JsObject fs \<Rightarrow>
          (case map_of fs ''reasoning'' of Some (JsString s) \<Rightarrow> True | _ \<Rightarrow> False)
          \<and> (case map_of fs ''action'' of
               Some (JsString a) \<Rightarrow>
                 a \<in> set [''MOVE'', ''RESCUE'', ''EXTINGUISH'', ''EXPLORE'', ''RECHARGE'']
             | _ \<Rightarrow> False)
          \<and> (case map_of fs ''priority'' of
               Some (JsString p) \<Rightarrow> p \<in> set [''HIGH'', ''MEDIUM'', ''LOW'']
             | _ \<Rightarrow> False)
          \<and> (case map_of fs ''targetCoordinates'' of
               None \<Rightarrow> True
             | Some c \<Rightarrow> isCoordinates c)
      | _ \<Rightarrow> False)"

text \<open>A reply that the \<open>catch\<close> block classifies as throttling.\<close>

definition throttled :: "OracleReply \<Rightarrow> bool" where
  "throttled r =
     (case tryAttempt r of Inl e \<Rightarrow> isRateLimit e = Inr True | Inr v \<Rightarrow> False)"

text \<open>A reply that the \<open>catch\<close> block classifies as a fault other than throttling.\<close>

definition fault :: "OracleReply \<Rightarrow> bool" where
  "fault r =
     (case tryAttempt r of Inl e \<Rightarrow> isRateLimit e = Inr False | Inr v \<Rightarrow> False)"

text \<open>
  A reply on which the classification does not throw: a parsed text, or a thrown value
  whose \<open>status\<close>, \<open>code\<close> and \<open>message\<close> can be read as the expression reads them.
\<close>

definition classified :: "OracleReply \<Rightarrow> bool" where
  "classified r =
     (case tryAttempt r of Inl e \<Rightarrow> isRateLimit e \<noteq> Inl TypeError | Inr v \<Rightarrow> True)"


lemma EmptyText_fault: "fault EmptyText"
  by (simp add: fault_def isRateLimit_def errorObject_def)

lemma isRateLimit_errorObject: "\<exists>b. isRateLimit (errorObject m) = Inr b"
  by (cases "jsIncludes m ''429''"; cases "jsIncludes m ''quota''")
    (auto simp: isRateLimit_def errorObject_def)

lemma Malformed_classified: "classified (Malformed m)"
  using isRateLimit_errorObject [of m] by (auto simp: classified_def)

lemma Parsed_classified: "classified (Parsed v)"
  by (simp add: classified_def)

lemma nullish_unclassified:
  "\<not> classified (Rejected JsNull)" "\<not> classified (Rejected JsUndefined)"
  by (simp_all add: classified_def isRateLimit_def)

lemma loop_return:
  "attempts < 3 \<Longrightarrow> oracle calls = Parsed v \<Longrightarrow>
   getDecisionLoop oracle attempts backoff calls ws
     = \<lparr>returned = Inr v, oracleCalls = calls + 1, waits = ws\<rparr>"
  by (subst getDecisionLoop.simps) (simp add: maxAttempts_def)

lemma loop_retry:
  "attempts < 2 \<Longrightarrow> throttled (oracle calls) \<Longrightarrow>
   getDecisionLoop oracle attempts backoff calls ws
     = getDecisionLoop oracle (attempts + 1) (backoff * 2) (calls + 1) (ws @ [backoff])"
  by (subst getDecisionLoop.simps) (auto simp: maxAttempts_def throttled_def split: sum.splits)

lemma loop_fallback:
  "attempts < 3 \<Longrightarrow> fault (oracle calls) \<or> (throttled (oracle calls) \<and> attempts = 2) \<Longrightarrow>
   getDecisionLoop oracle attempts backoff calls ws
     = \<lparr>returned = Inr fallbackDecision, oracleCalls = calls + 1, waits = ws\<rparr>"
  by (subst getDecisionLoop.simps)
    (auto simp: maxAttempts_def throttled_def fault_def split: sum.splits)

lemma loop_throw:
  "attempts < 3 \<Longrightarrow> \<not> classified (oracle calls) \<Longrightarrow>
   getDecisionLoop oracle attempts backoff calls ws
     = \<lparr>returned = Inl TypeError, oracleCalls = calls + 1, waits = ws\<rparr>"
  by (subst getDecisionLoop.simps)
    (auto simp: maxAttempts_def classified_def split: sum.splits)

lemma reply_cases:
  obtains (parsed) v where "r = Parsed v"
  | (fault) "fault r"
  | (throttle) "throttled r"
  | (throw) "\<not> classified r"
proof (cases "tryAttempt r")
  case (Inr v)
  then have "r = Parsed v"
    by (cases r) simp_all
  then show ?thesis by (rule parsed)
next
  case (Inl e)
  show ?thesis
  proof (cases "isRateLimit e")
    case (Inl x)
    then have "\<not> classified r"
      using \<open>tryAttempt r = Inl e\<close> by (cases x) (simp add: classified_def)
    then show ?thesis by (rule throw)
  next
    case (Inr b)
    then show ?thesis
      using \<open>tryAttempt r = Inl e\<close> fault throttle
      by (cases b) (simp_all add: fault_def throttled_def)
  qed
qed

text \<open>The third attempt, the second and the first: what the call can come to.\<close>

lemma last_attempt:
  "\<exists>res. getDecisionLoop orc 2 b 2 ws = \<lparr>returned = res, oracleCalls = 3, waits = ws\<rparr>
     \<and> (classified (orc 2) \<longrightarrow> (\<exists>v. res = Inr v))"
proof (cases "orc 2" rule: reply_cases)
  case (parsed v)
  then show ?thesis using loop_return [of 2 orc 2 v b ws] by simp
next
  case fault
  then show ?thesis using loop_fallback [of 2 orc 2 b ws] by simp
next
  case throttle
  then show ?thesis using loop_fallback [of 2 orc 2 b ws] by simp
next
  case throw
  then show ?thesis using loop_throw [of 2 orc 2 b ws] by simp
qed

lemma second_attempt:
  "\<exists>res n zs. getDecisionLoop orc 1 b 1 ws
       = \<lparr>returned = res, oracleCalls = n, waits = ws @ zs\<rparr>
     \<and> n \<le> 3 \<and> prefix zs [b]
     \<and> (classified (orc 1) \<and> classified (orc 2) \<longrightarrow> (\<exists>v. res = Inr v))"
proof (cases "orc 1" rule: reply_cases)
  case (parsed v)
  then show ?thesis using loop_return [of 1 orc 1 v b ws] by simp
next
  case fault
  then show ?thesis using loop_fallback [of 1 orc 1 b ws] by simp
next
  case throttle
  then have "getDecisionLoop orc 1 b 1 ws = getDecisionLoop orc 2 (b * 2) 2 (ws @ [b])"
    using loop_retry [of 1 orc 1 b ws] by (simp add: numeral_2_eq_2)
  then show ?thesis
    using last_attempt [of orc "b * 2" "ws @ [b]"] by auto
next
  case throw
  then show ?thesis using loop_throw [of 1 orc 1 b ws] by simp
qed

lemma first_attempt:
  "\<exists>res n zs. getDecisionFromGemini orc = \<lparr>returned = res, oracleCalls = n, waits = zs\<rparr>
     \<and> n \<le> 3 \<and> prefix zs [2000, 4000]
     \<and> (classified (orc 0) \<and> classified (orc 1) \<and> classified (orc 2) \<longrightarrow> (\<exists>v. res = Inr v))"
proof (cases "orc 0" rule: reply_cases)
  case (parsed v)
  then show ?thesis
    using loop_return [of 0 orc 0 v 2000 "[]"] by (simp add: getDecisionFromGemini_def)
next
  case fault
  then show ?thesis
    using loop_fallback [of 0 orc 0 2000 "[]"] by (simp add: getDecisionFromGemini_def)
next
  case throttle
  then have "getDecisionFromGemini orc = getDecisionLoop orc 1 4000 1 [2000]"
    using loop_retry [of 0 orc 0 2000 "[]"] by (simp add: getDecisionFromGemini_def)
  then show ?thesis
    using second_attempt [of orc 4000 "[2000]"] by auto
next
  case throw
  then show ?thesis
    using loop_throw [of 0 orc 0 2000 "[]"] by (simp add: getDecisionFromGemini_def)
qed

text \<open>
  After \<open>k\<close> throttling replies the call is in its attempt \<open>k + 1\<close> with the waits
  so far.
\<close>

lemma after_throttles:
  assumes "k \<le> 2" and "\<forall>i<k. throttled (orc i)"
  shows "getDecisionFromGemini orc
    = getDecisionLoop orc k (2000 * 2 ^ k) k (take k [2000, 4000])"
proof -
  consider "k = 0" | "k = 1" | "k = 2"
    using assms(1) by linarith
  then show ?thesis
  proof cases
    case 1
    then show ?thesis by (simp add: getDecisionFromGemini_def)
  next
    case 2
    then have "throttled (orc 0)" using assms(2) by simp
    then show ?thesis
      using 2 loop_retry [of 0 orc 0 2000 "[]"] by (simp add: getDecisionFromGemini_def)
  next
    case 3
    then have "throttled (orc 0)" "throttled (orc 1)" using assms(2) by simp_all
    then show ?thesis
      using 3 loop_retry [of 0 orc 0 2000 "[]"] loop_retry [of 1 orc 1 4000 "[2000]"]
      by (simp add: getDecisionFromGemini_def numeral_2_eq_2)
  qed
qed

lemma fallback_after:
  assumes "k \<le> 2" and "\<forall>i<k. throttled (orc i)"
    and "fault (orc k) \<or> (throttled (orc k) \<and> k = 2)"
  shows "getDecisionFromGemini orc
    = \<lparr>returned = Inr fallbackDecision, oracleCalls = k + 1, waits = take k [2000, 4000]\<rparr>"
  using after_throttles [OF assms(1,2)] assms(1,3)
    loop_fallback [of k orc k "2000 * 2 ^ k" "take k [2000, 4000]"]
  by simp

lemma parsed_after:
  assumes "k \<le> 2" and "\<forall>i<k. throttled (orc i)" and "orc k = Parsed v"
  shows "getDecisionFromGemini orc
    = \<lparr>returned = Inr v, oracleCalls = k + 1, waits = take k [2000, 4000]\<rparr>"
  using after_throttles [OF assms(1,2)] assms(1,3)
    loop_return [of k orc k v "2000 * 2 ^ k" "take k [2000, 4000]"]
  by simp

lemma throw_after:
  assumes "k \<le> 2" and "\<forall>i<k. throttled (orc i)" and "\<not> classified (orc k)"
  shows "getDecisionFromGemini orc
    = \<lparr>returned = Inl TypeError, oracleCalls = k + 1, waits = take k [2000, 4000]\<rparr>"
  using after_throttles [OF assms(1,2)] assms(1,3)
    loop_throw [of k orc k "2000 * 2 ^ k" "take k [2000, 4000]"]
  by simp


text \<open>
  Which thrown values the \<open>catch\<close> block can classify: every value but \<open>null\<close> and
  \<open>undefined\<close> whose \<open>status\<close> or \<open>code\<close> is 429, or whose \<open>message\<close> is falsy, a
  string or an array.
\<close>

lemma classified_Rejected:
  "classified (Rejected e) \<longleftrightarrow>
     e \<noteq> JsUndefined \<and> e \<noteq> JsNull
     \<and> (getProp e ''status'' = Inr (JsNumber 429) \<or> getProp e ''code'' = Inr (JsNumber 429)
        \<or> (\<exists>m. getProp e ''message'' = Inr m
              \<and> (\<not> truthy m \<or> (\<exists>s. m = JsString s) \<or> (\<exists>xs. m = JsArray xs))))"
proof -
  have m: "(\<exists>b. (case callIncludes m ''429'' of
             Inl x \<Rightarrow> Inl x
           | Inr True \<Rightarrow> Inr True
           | Inr False \<Rightarrow>
               (case callIncludes m ''quota'' of
                  Inl x \<Rightarrow> Inl x
                | Inr True \<Rightarrow> Inr True
                | Inr False \<Rightarrow> callIncludes m ''RESOURCE_EXHAUSTED'')) = Inr b)
      \<longleftrightarrow> (\<exists>s. m = JsString s) \<or> (\<exists>xs. m = JsArray xs)" for m
    by (cases m) (auto split: bool.splits)
  have x: "(y \<noteq> Inl TypeError) = (\<exists>b. y = Inr b)" for y :: "JsException + bool"
  proof (cases y)
    case (Inl a)
    then show ?thesis by (cases a) simp
  next
    case (Inr b)
    then show ?thesis by simp
  qed
  show ?thesis
    unfolding classified_def tryAttempt.simps sum.case x
    by (cases e) (auto simp: isRateLimit_def m split: sum.splits)
qed

text \<open>
  Claim C8, as amended. The oracle is any sequence of replies. If the first \<open>k \<le> 2\<close>
  replies are classified as throttling and reply \<open>k\<close> is classified as a fault that is
  not throttling, or as throttling on the third attempt, the call returns the fallback
  decision after \<open>k + 1\<close> oracle calls and the waits \<open>2000\<close>, \<open>4000\<close> cut to the
  first \<open>k\<close>; three throttling replies in a row give it after exactly three calls and the
  waits 2 s then 4 s. An empty response is a fault that is not throttling, and a text
  that \<open>JSON.parse\<close> rejects is one or the other according to the parser's message, so
  that both give the fallback when no retry is left. A text that \<open>JSON.parse\<close> accepts
  is returned as parsed, whatever its shape. The fallback decision has the shape of a
  decision, with action Explore, priority Low and a reasoning text. Whatever the oracle
  does, at most three calls are made and the waits are a prefix of 2 s, 4 s. No exception
  reaches the caller when every thrown value can be classified, which is the case for
  every value but \<open>null\<close> and \<open>undefined\<close> whose \<open>status\<close> or \<open>code\<close> is 429 or
  whose \<open>message\<close> is falsy, a string or an array.
\<close>

theorem getDecisionFromGemini_fallback:
  "(\<forall>k. k \<le> 2 \<and> (\<forall>i<k. throttled (orc i))
        \<and> (fault (orc k) \<or> (throttled (orc k) \<and> k = 2)) \<longrightarrow>
      getDecisionFromGemini orc
        = \<lparr>returned = Inr fallbackDecision, oracleCalls = k + 1,
           waits = take k [2000, 4000]\<rparr>)
   \<and> (throttled (orc 0) \<and> throttled (orc 1) \<and> throttled (orc 2) \<longrightarrow>
      getDecisionFromGemini orc
        = \<lparr>returned = Inr fallbackDecision, oracleCalls = 3, waits = [2000, 4000]\<rparr>)
   \<and> fault EmptyText
   \<and> (\<forall>m. fault (Malformed m) \<or> throttled (Malformed m))
   \<and> (\<forall>k v. k \<le> 2 \<and> (\<forall>i<k. throttled (orc i)) \<and> orc k = Parsed v \<longrightarrow>
      getDecisionFromGemini orc
        = \<lparr>returned = Inr v, oracleCalls = k + 1, waits = take k [2000, 4000]\<rparr>)
   \<and> isDecision fallbackDecision
   \<and> getProp fallbackDecision ''action'' = Inr (JsString ''EXPLORE'')
   \<and> getProp fallbackDecision ''priority'' = Inr (JsString ''LOW'')
   \<and> (\<exists>s. getProp fallbackDecision ''reasoning'' = Inr (JsString s) \<and> s \<noteq> [])
   \<and> oracleCalls (getDecisionFromGemini orc) \<le> 3
   \<and> prefix (waits (getDecisionFromGemini orc)) [2000, 4000]
   \<and> (classified (orc 0) \<and> classified (orc 1) \<and> classified (orc 2) \<longrightarrow>
      (\<exists>v. returned (getDecisionFromGemini orc) = Inr v))
   \<and> (\<forall>e. classified (Rejected e) \<longleftrightarrow>
        e \<noteq> JsUndefined \<and> e \<noteq> JsNull
        \<and> (getProp e ''status'' = Inr (JsNumber 429)
           \<or> getProp e ''code'' = Inr (JsNumber 429)
           \<or> (\<exists>m. getProp e ''message'' = Inr m
                 \<and> (\<not> truthy m \<or> (\<exists>s. m = JsString s) \<or> (\<exists>xs. m = JsArray xs)))))
   \<and> classified EmptyText \<and> (\<forall>m. classified (Malformed m))
   \<and> (\<forall>v. classified (Parsed v))"
proof -
  have a: "\<forall>k. k \<le> 2 \<and> (\<forall>i<k. throttled (orc i))
        \<and> (fault (orc k) \<or> (throttled (orc k) \<and> k = 2)) \<longrightarrow>
      getDecisionFromGemini orc
        = \<lparr>returned = Inr fallbackDecision, oracleCalls = k + 1,
           waits = take k [2000, 4000]\<rparr>"
    using fallback_after [of _ orc] by blast
  have b: "throttled (orc 0) \<and> throttled (orc 1) \<and> throttled (orc 2) \<longrightarrow>
      getDecisionFromGemini orc
        = \<lparr>returned = Inr fallbackDecision, oracleCalls = 3, waits = [2000, 4000]\<rparr>"
  proof
    assume t: "throttled (orc 0) \<and> throttled (orc 1) \<and> throttled (orc 2)"
    then have "\<forall>i<2. throttled (orc i)"
      by (simp add: less_Suc_eq numeral_2_eq_2)
    then show "getDecisionFromGemini orc
        = \<lparr>returned = Inr fallbackDecision, oracleCalls = 3, waits = [2000, 4000]\<rparr>"
      using t fallback_after [of 2 orc] by simp
  qed
  have c: "\<forall>m. fault (Malformed m) \<or> throttled (Malformed m)"
  proof
    fix m
    show "fault (Malformed m) \<or> throttled (Malformed m)"
      using Malformed_classified [of m] by (cases "Malformed m" rule: reply_cases) auto
  qed
  have d: "\<forall>k v. k \<le> 2 \<and> (\<forall>i<k. throttled (orc i)) \<and> orc k = Parsed v \<longrightarrow>
      getDecisionFromGemini orc
        = \<lparr>returned = Inr v, oracleCalls = k + 1, waits = take k [2000, 4000]\<rparr>"
    using parsed_after [of _ orc] by blast
  have e: "isDecision fallbackDecision
      \<and> getProp fallbackDecision ''action'' = Inr (JsString ''EXPLORE'')
      \<and> getProp fallbackDecision ''priority'' = Inr (JsString ''LOW'')
      \<and> (\<exists>s. getProp fallbackDecision ''reasoning'' = Inr (JsString s) \<and> s \<noteq> [])"
    by (simp add: fallbackDecision_def isDecision_def)
  have f: "oracleCalls (getDecisionFromGemini orc) \<le> 3
      \<and> prefix (waits (getDecisionFromGemini orc)) [2000, 4000]
      \<and> (classified (orc 0) \<and> classified (orc 1) \<and> classified (orc 2) \<longrightarrow>
          (\<exists>v. returned (getDecisionFromGemini orc) = Inr v))"
    using first_attempt [of orc] by auto
  have g: "\<forall>e. classified (Rejected e) \<longleftrightarrow>
        e \<noteq> JsUndefined \<and> e \<noteq> JsNull
        \<and> (getProp e ''status'' = Inr (JsNumber 429)
           \<or> getProp e ''code'' = Inr (JsNumber 429)
           \<or> (\<exists>m. getProp e ''message'' = Inr m
                 \<and> (\<not> truthy m \<or> (\<exists>s. m = JsString s) \<or> (\<exists>xs. m = JsArray xs))))"
    using classified_Rejected by (rule allI)
  have h: "classified EmptyText \<and> (\<forall>m. classified (Malformed m)) \<and> (\<forall>v. classified (Parsed v))"
    using EmptyText_fault Malformed_classified Parsed_classified
    by (simp add: classified_def fault_def split: sum.splits)
  show ?thesis
    by (intro conjI a b c d e [THEN conjunct1] e [THEN conjunct2, THEN conjunct1]
        e [THEN conjunct2, THEN conjunct2, THEN conjunct1]
        e [THEN conjunct2, THEN conjunct2, THEN conjunct2]
        f [THEN conjunct1] f [THEN conjunct2, THEN conjunct1]
        f [THEN conjunct2, THEN conjunct2] g EmptyText_fault
        h [THEN conjunct1] h [THEN conjunct2, THEN conjunct1] h [THEN conjunct2, THEN conjunct2])
qed


text \<open>
  A thrown value with a message naming the quota, and a reply whose text parses to a
  decision.
\<close>

definition quotaError :: JsValue where
  "quotaError = JsObject [(''message'', JsString ''quota exceeded'')]"

definition exploreReply :: JsValue where
  "exploreReply =
     JsObject
       [(''reasoning'', JsString ''Unknown cells to the east.''),
        (''action'', JsString ''MOVE''),
        (''targetCoordinates'', JsObject [(''x'', JsNumber 3), (''y'', JsNumber 1)]),
        (''priority'', JsString ''MEDIUM'')]"

theorem getDecisionFromGemini_fallback_witness:
  "throttled (Rejected quotaError)
   \<and> getDecisionFromGemini (\<lambda>i. Rejected quotaError)
       = \<lparr>returned = Inr fallbackDecision, oracleCalls = 3, waits = [2000, 4000]\<rparr>
   \<and> getDecisionFromGemini (\<lambda>i. if i = 0 then Rejected quotaError else EmptyText)
       = \<lparr>returned = Inr fallbackDecision, oracleCalls = 2, waits = [2000]\<rparr>
   \<and> getDecisionFromGemini (\<lambda>i. if i = 0 then Rejected quotaError else Parsed exploreReply)
       = \<lparr>returned = Inr exploreReply, oracleCalls = 2, waits = [2000]\<rparr>
   \<and> classified (Rejected quotaError)
   \<and> (\<exists>v. returned (getDecisionFromGemini (\<lambda>i. Rejected quotaError)) = Inr v)"
proof -
  have t: "throttled (Rejected quotaError)"
    by (simp add: throttled_def isRateLimit_def quotaError_def)
  have c: "classified (Rejected quotaError)"
    by (simp add: classified_def isRateLimit_def quotaError_def)
  note main = getDecisionFromGemini_fallback
  have a: "getDecisionFromGemini (\<lambda>i. Rejected quotaError)
       = \<lparr>returned = Inr fallbackDecision, oracleCalls = 3, waits = [2000, 4000]\<rparr>"
    using main [of "\<lambda>i. Rejected quotaError"] t by simp
  have r: "\<exists>v. returned (getDecisionFromGemini (\<lambda>i. Rejected quotaError)) = Inr v"
    using main [of "\<lambda>i. Rejected quotaError"] c by simp
  have f: "fault EmptyText"
    using main [of "\<lambda>i. EmptyText"] by simp
  have "\<forall>k. k \<le> 2 \<and> (\<forall>i<k. throttled (if i = 0 then Rejected quotaError else EmptyText))
        \<and> (fault (if k = 0 then Rejected quotaError else EmptyText)
           \<or> (throttled (if k = 0 then Rejected quotaError else EmptyText) \<and> k = 2)) \<longrightarrow>
      getDecisionFromGemini (\<lambda>i. if i = 0 then Rejected quotaError else EmptyText)
        = \<lparr>returned = Inr fallbackDecision, oracleCalls = k + 1,
           waits = take k [2000, 4000]\<rparr>"
    using main [of "\<lambda>i. if i = 0 then Rejected quotaError else EmptyText"]
    by (rule conjunct1)
  from this [THEN spec, of 1]
  have b: "getDecisionFromGemini (\<lambda>i. if i = 0 then Rejected quotaError else EmptyText)
       = \<lparr>returned = Inr fallbackDecision, oracleCalls = 2, waits = [2000]\<rparr>"
    using t f by simp
  have "\<forall>k v. k \<le> 2
        \<and> (\<forall>i<k. throttled (if i = 0 then Rejected quotaError else Parsed exploreReply))
        \<and> (if k = 0 then Rejected quotaError else Parsed exploreReply) = Parsed v \<longrightarrow>
      getDecisionFromGemini (\<lambda>i. if i = 0 then Rejected quotaError else Parsed exploreReply)
        = \<lparr>returned = Inr v, oracleCalls = k + 1, waits = take k [2000, 4000]\<rparr>"
    using main [of "\<lambda>i. if i = 0 then Rejected quotaError else Parsed exploreReply"]
    by simp
  from this [THEN spec, of 1, THEN spec, of exploreReply]
  have d: "getDecisionFromGemini (\<lambda>i. if i = 0 then Rejected quotaError else Parsed exploreReply)
       = \<lparr>returned = Inr exploreReply, oracleCalls = 2, waits = [2000]\<rparr>"
    using t by simp
  show ?thesis
    by (intro conjI t a b d c r)
qed

text \<open>
  Against claim C8 as it was stated. A rejection with \<open>null\<close>, or with an object whose
  \<open>message\<close> is the number 503, makes the \<open>catch\<close> block itself throw a TypeError on
  the first attempt: the call rejects with it and returns no fallback. After two
  throttling replies, a third reply whose text is \<open>null\<close> is accepted by \<open>JSON.parse\<close>
  and returned as the decision, with no retry left, though it has not the shape of one.
\<close>

theorem getDecisionFromGemini_fallback_counterexample:
  "getDecisionFromGemini (\<lambda>i. Rejected JsNull)
       = \<lparr>returned = Inl TypeError, oracleCalls = 1, waits = []\<rparr>
   \<and> getDecisionFromGemini (\<lambda>i. Rejected (JsObject [(''message'', JsNumber 503)]))
       = \<lparr>returned = Inl TypeError, oracleCalls = 1, waits = []\<rparr>
   \<and> getDecisionFromGemini (\<lambda>i. if i < 2 then Rejected quotaError else Parsed JsNull)
       = \<lparr>returned = Inr JsNull, oracleCalls = 3, waits = [2000, 4000]\<rparr>
   \<and> \<not> isDecision JsNull
   \<and> Inr JsNull \<noteq> (Inr fallbackDecision :: JsException + JsValue)"
proof -
  have a: "getDecisionFromGemini (\<lambda>i. Rejected JsNull)
       = \<lparr>returned = Inl TypeError, oracleCalls = 1, waits = []\<rparr>"
    using throw_after [of 0 "\<lambda>i. Rejected JsNull"] nullish_unclassified(1) by simp
  have "\<not> classified (Rejected (JsObject [(''message'', JsNumber 503)]))"
    by (simp add: classified_def isRateLimit_def)
  then have b: "getDecisionFromGemini (\<lambda>i. Rejected (JsObject [(''message'', JsNumber 503)]))
       = \<lparr>returned = Inl TypeError, oracleCalls = 1, waits = []\<rparr>"
    using throw_after [of 0 "\<lambda>i. Rejected (JsObject [(''message'', JsNumber 503)])"] by simp
  have t: "throttled (Rejected quotaError)"
    by (simp add: throttled_def isRateLimit_def quotaError_def)
  have c: "getDecisionFromGemini (\<lambda>i. if i < 2 then Rejected quotaError else Parsed JsNull)
       = \<lparr>returned = Inr JsNull, oracleCalls = 3, waits = [2000, 4000]\<rparr>"
    using parsed_after [of 2 "\<lambda>i. if i < 2 then Rejected quotaError else Parsed JsNull" JsNull] t
    by simp
  have d: "\<not> isDecision JsNull"
    by (simp add: isDecision_def)
  have e: "Inr JsNull \<noteq> (Inr fallbackDecision :: JsException + JsValue)"
    by (simp add: fallbackDecision_def)
  show ?thesis
    by (intro conjI a b c d e)
qed

section \<open>Perception engine (services/perception.ts, scanEnvironment)\<close>

text \<open>
  \<open>scanEnvironment\<close> copies cell objects and then writes to the copies, so whether it
  changes its input depends on which objects are shared. The model therefore keeps the
  cell objects in an explicit store: a reference is an index into the store, allocation
  appends, and a grid is its rows of references.
\<close>

type_synonym ref = nat

type_synonym heap = "Cell list"

type_synonym GridRef = "ref list list"

definition alloc :: "Cell \<Rightarrow> heap \<Rightarrow> ref \<times> heap" where
  "alloc c h = (length h, h @ [c])"

text \<open>\<open>row.map(cell => ({ ...cell }))\<close>: one fresh object per cell, left to right.\<close>

fun copyRow :: "ref list \<Rightarrow> heap \<Rightarrow> ref list \<times> heap" where
  "copyRow [] h = ([], h)"
| "copyRow (a # as) h =
     (case alloc (h ! a) h of (b, h1) \<Rightarrow>
        (case copyRow as h1 of (bs, h2) \<Rightarrow> (b # bs, h2)))"

text \<open>\<open>truthGrid.map(row => row.map(...))\<close>.\<close>

fun copyGrid :: "GridRef \<Rightarrow> heap \<Rightarrow> GridRef \<times> heap" where
  "copyGrid [] h = ([], h)"
| "copyGrid (row # rows) h =
     (case copyRow row h of (r, h1) \<Rightarrow>
        (case copyGrid rows h1 of (rs, h2) \<Rightarrow> (r # rs, h2)))"

record SensorReading =
  coordinates :: Coordinates
  rtype :: CellType
  distance :: int

definition SENSOR_RADIUS :: int where
  "SENSOR_RADIUS = 2"

text \<open>The offsets \<open>(dx, dy)\<close> in the order the two \<open>for\<close> loops visit them.\<close>

definition sensorWindow :: "(int \<times> int) list" where
  "sensorWindow =
     concat (map (\<lambda>dy. map (\<lambda>dx. (dx, dy)) [- SENSOR_RADIUS..SENSOR_RADIUS])
       [- SENSOR_RADIUS..SENSOR_RADIUS])"

text \<open>
  \<open>g[ny][nx]\<close> followed by a field access: a missing row or a missing cell is a
  TypeError, \<open>None\<close> here.
\<close>

definition refAt :: "GridRef \<Rightarrow> int \<Rightarrow> int \<Rightarrow> ref option" where
  "refAt g nx ny =
     (if 0 \<le> ny \<and> nat ny < length g \<and> 0 \<le> nx \<and> nat nx < length (g ! nat ny)
      then Some (g ! nat ny ! nat nx) else None)"

definition inBounds :: "int \<Rightarrow> int \<Rightarrow> bool" where
  "inBounds nx ny \<longleftrightarrow> nx \<ge> 0 \<and> nx < GRID_SIZE \<and> ny \<ge> 0 \<and> ny < GRID_SIZE"

text \<open>The loop's state: the store, the readings so far and \<open>mapUpdated\<close>.\<close>

type_synonym ScanState = "heap \<times> SensorReading list \<times> bool"

text \<open>The body of the inner loop at offset \<open>(dx, dy)\<close>.\<close>

fun scanCell ::
  "GridRef \<Rightarrow> GridRef \<Rightarrow> Coordinates \<Rightarrow> int \<times> int \<Rightarrow> ScanState \<Rightarrow> ScanState option" where
  "scanCell truthGrid newMapState robotPos (dx, dy) (h, readings, mapUpdated) =
     (let nx = fst robotPos + dx; ny = snd robotPos + dy in
      if inBounds nx ny then
        (case refAt truthGrid nx ny of
           None \<Rightarrow> None
         | Some a \<Rightarrow>
             (let readings' = readings @
                    [\<lparr>coordinates = (nx, ny), rtype = ctype (h ! a),
                      distance = \<bar>dx\<bar> + \<bar>dy\<bar>\<rparr>]
              in case refAt newMapState nx ny of
                   None \<Rightarrow> None
                 | Some b \<Rightarrow>
                     if \<not> revealed (h ! b)
                     then Some (h[b := (h ! b)\<lparr>revealed := True\<rparr>], readings', True)
                     else Some (h, readings', mapUpdated)))
      else Some (h, readings, mapUpdated))"

fun scanLoop ::
  "GridRef \<Rightarrow> GridRef \<Rightarrow> Coordinates \<Rightarrow> (int \<times> int) list \<Rightarrow> ScanState \<Rightarrow> ScanState option" where
  "scanLoop truthGrid newMapState robotPos [] st = Some st"
| "scanLoop truthGrid newMapState robotPos (d # ds) st =
     (case scanCell truthGrid newMapState robotPos d st of
        None \<Rightarrow> None
      | Some st' \<Rightarrow> scanLoop truthGrid newMapState robotPos ds st')"

record ScanResult =
  readings :: "SensorReading list"
  newMapState :: GridRef

text \<open>The call returns the store after it and the result object, or throws.\<close>

definition scanEnvironment :: "heap \<Rightarrow> GridRef \<Rightarrow> Coordinates \<Rightarrow> (heap \<times> ScanResult) option" where
  "scanEnvironment h truthGrid robotPos =
     (case copyGrid truthGrid h of (newMap, h1) \<Rightarrow>
        (case scanLoop truthGrid newMap robotPos sensorWindow (h1, [], False) of
           None \<Rightarrow> None
         | Some (h2, rs, mapUpdated) \<Rightarrow>
             Some (h2, \<lparr>readings = rs,
                        newMapState = (if mapUpdated then newMap else truthGrid)\<rparr>)))"

text \<open>
  The tick loop scans once per tick and keeps the returned grid; a run of scans from
  successive robot positions.
\<close>

fun scanSequence :: "heap \<Rightarrow> GridRef \<Rightarrow> Coordinates list \<Rightarrow> (heap \<times> GridRef) option" where
  "scanSequence h g [] = Some (h, g)"
| "scanSequence h g (p # ps) =
     (case scanEnvironment h g p of
        None \<Rightarrow> None
      | Some (h', res) \<Rightarrow> scanSequence h' (newMapState res) ps)"

text \<open>Every reference of the grid points to an allocated cell.\<close>

definition validRefs :: "heap \<Rightarrow> GridRef \<Rightarrow> bool" where
  "validRefs h g \<longleftrightarrow> (\<forall>row \<in> set g. \<forall>a \<in> set row. a < length h)"

text \<open>A grid of \<open>GRID_SIZE\<close> rows of \<open>GRID_SIZE\<close> cells.\<close>

definition fullGrid :: "GridRef \<Rightarrow> bool" where
  "fullGrid g \<longleftrightarrow> length g = nat GRID_SIZE \<and> (\<forall>row \<in> set g. length row = nat GRID_SIZE)"

lemma copyRow_eq:
  "\<forall>a \<in> set row. a < length h \<Longrightarrow>
   copyRow row h = ([length h..<length h + length row], h @ map (nth h) row)"
proof (induction row arbitrary: h)
  case Nil
  then show ?case by simp
next
  case (Cons a as)
  have v: "\<forall>r \<in> set as. r < length (h @ [h ! a])"
    using Cons.prems by auto
  have m: "map (nth (h @ [h ! a])) as = map (nth h) as"
    using Cons.prems by (auto simp: nth_append)
  have u: "[length h..<length h + length (a # as)]
      = length h # [Suc (length h)..<length h + length (a # as)]"
    by (rule upt_conv_Cons) simp
  show ?case
    unfolding u using Cons.IH [OF v] m by (simp add: alloc_def)
qed


lemma validRefs_Cons:
  "validRefs h (row # rows) \<longleftrightarrow> (\<forall>a \<in> set row. a < length h) \<and> validRefs h rows"
  by (simp add: validRefs_def)

lemma validRefs_mono: "validRefs h g \<Longrightarrow> length h \<le> length k \<Longrightarrow> validRefs k g"
  unfolding validRefs_def by (meson less_le_trans)

lemma validRefs_nth:
  assumes "validRefs h g" and "y < length g" and "x < length (g ! y)"
  shows "g ! y ! x < length h"
proof -
  have "g ! y \<in> set g" and "g ! y ! x \<in> set (g ! y)"
    using assms(2,3) by simp_all
  moreover have "\<forall>row \<in> set g. \<forall>a \<in> set row. a < length h"
    using assms(1) by (simp add: validRefs_def)
  ultimately show ?thesis
    by (rule_tac bspec [of "set (g ! y)"], rule_tac bspec [of "set g"])
qed

text \<open>
  The copy: the old store is a prefix of the new one, the new grid has the shape of the
  old, every new reference is fresh, and each new cell equals the cell it copies.
\<close>

lemma copyGrid_props:
  assumes "validRefs h g" and "copyGrid g h = (g', h')"
  shows "(\<exists>k. h' = h @ k) \<and> length g' = length g
    \<and> (\<forall>y < length g. length (g' ! y) = length (g ! y)
         \<and> (\<forall>x < length (g ! y). length h \<le> g' ! y ! x \<and> g' ! y ! x < length h'
               \<and> h' ! (g' ! y ! x) = h ! (g ! y ! x)))"
  using assms
proof (induction g arbitrary: h g' h')
  case Nil
  then show ?case by simp
next
  case (Cons row rows)
  define h1 where "h1 = h @ map (nth h) row"
  have vr: "\<forall>a \<in> set row. a < length h" and vrows: "validRefs h rows"
    using Cons.prems(1) by (simp_all add: validRefs_Cons)
  have row: "copyRow row h = ([length h..<length h + length row], h1)"
    using copyRow_eq [OF vr] by (simp add: h1_def)
  obtain rs h2 where rest: "copyGrid rows h1 = (rs, h2)"
    by (cases "copyGrid rows h1")
  have g': "g' = [length h..<length h + length row] # rs" and h': "h' = h2"
    using Cons.prems(2) row rest by simp_all
  have v1: "validRefs h1 rows"
    using vrows by (rule validRefs_mono) (simp add: h1_def)
  note ih = Cons.IH [OF v1 rest]
  obtain k where k: "h2 = h1 @ k"
    using ih [THEN conjunct1] by (rule exE)
  have len: "length rs = length rows"
    using ih [THEN conjunct2, THEN conjunct1] .
  have a: "\<exists>k. h' = h @ k"
    using k h' by (simp add: h1_def)
  have b: "length (g' ! y) = length ((row # rows) ! y)
         \<and> (\<forall>x < length ((row # rows) ! y). length h \<le> g' ! y ! x \<and> g' ! y ! x < length h'
               \<and> h' ! (g' ! y ! x) = h ! ((row # rows) ! y ! x))"
    if y: "y < length (row # rows)" for y
  proof (cases y)
    case 0
    have "length h \<le> length h + x \<and> length h + x < length h2
        \<and> h2 ! (length h + x) = h ! (row ! x)" if "x < length row" for x
      using that k by (simp add: h1_def nth_append)
    then show ?thesis
      unfolding 0 g' h' by simp
  next
    case (Suc y')
    then have y': "y' < length rows"
      using y by simp
    have ihy: "length (rs ! y') = length (rows ! y')
         \<and> (\<forall>x < length (rows ! y'). length h1 \<le> rs ! y' ! x \<and> rs ! y' ! x < length h2
               \<and> h2 ! (rs ! y' ! x) = h1 ! (rows ! y' ! x))"
      using ih [THEN conjunct2, THEN conjunct2, THEN spec, THEN mp, OF y'] .
    have old: "h1 ! (rows ! y' ! x) = h ! (rows ! y' ! x)" if "x < length (rows ! y')" for x
      using validRefs_nth [OF vrows y' that] by (simp add: h1_def nth_append)
    have le: "length h \<le> length h1"
      by (simp add: h1_def)
    have "length h \<le> rs ! y' ! x \<and> rs ! y' ! x < length h2
        \<and> h2 ! (rs ! y' ! x) = h ! (rows ! y' ! x)" if "x < length (rows ! y')" for x
      using ihy old [OF that] le that by force
    then show ?thesis
      unfolding Suc g' h' using ihy by simp
  qed
  show ?case
    using a b len g' by simp
qed


lemma copyGrid_prefix:
  "validRefs h g \<Longrightarrow> copyGrid g h = (g', h') \<Longrightarrow> \<exists>k. h' = h @ k"
  using copyGrid_props [of h g g' h'] by blast

lemma copyGrid_length:
  "validRefs h g \<Longrightarrow> copyGrid g h = (g', h') \<Longrightarrow> length g' = length g"
  using copyGrid_props [of h g g' h'] by blast

lemma copyGrid_row_length:
  "validRefs h g \<Longrightarrow> copyGrid g h = (g', h') \<Longrightarrow> y < length g \<Longrightarrow>
   length (g' ! y) = length (g ! y)"
  using copyGrid_props [of h g g' h'] by blast

lemma copyGrid_cell:
  "validRefs h g \<Longrightarrow> copyGrid g h = (g', h') \<Longrightarrow> y < length g \<Longrightarrow> x < length (g ! y) \<Longrightarrow>
   length h \<le> g' ! y ! x \<and> g' ! y ! x < length h' \<and> h' ! (g' ! y ! x) = h ! (g ! y ! x)"
  using copyGrid_props [of h g g' h'] by blast

text \<open>An in-bounds cell of the window at offset \<open>d\<close> that is not yet revealed.\<close>

fun unrevealedAt :: "heap \<Rightarrow> GridRef \<Rightarrow> Coordinates \<Rightarrow> int \<times> int \<Rightarrow> bool" where
  "unrevealedAt h g robotPos (dx, dy) =
     (inBounds (fst robotPos + dx) (snd robotPos + dy) \<and>
      (case refAt g (fst robotPos + dx) (snd robotPos + dy) of
         None \<Rightarrow> False
       | Some b \<Rightarrow> \<not> revealed (h ! b)))"

text \<open>Every reference of the grid is at or above \<open>n\<close>.\<close>

definition freshRefs :: "nat \<Rightarrow> GridRef \<Rightarrow> bool" where
  "freshRefs n g \<longleftrightarrow> (\<forall>y < length g. \<forall>x < length (g ! y). n \<le> g ! y ! x)"

lemma refAt_Some:
  "refAt g nx ny = Some b \<longleftrightarrow>
     0 \<le> ny \<and> nat ny < length g \<and> 0 \<le> nx \<and> nat nx < length (g ! nat ny)
     \<and> b = g ! nat ny ! nat nx"
  by (auto simp: refAt_def)

lemma freshRefs_refAt: "freshRefs n g \<Longrightarrow> refAt g nx ny = Some b \<Longrightarrow> n \<le> b"
  by (simp add: freshRefs_def refAt_Some)

text \<open>
  One step of the loop: the store keeps its size; a step that finds nothing unrevealed
  changes nothing; otherwise only the \<open>revealed\<close> flag of one cell of the new grid
  changes, from false to true.
\<close>

lemma scanCell_props:
  assumes "scanCell tg nm pos d (h, rs, u) = Some (h', rs', u')" and "freshRefs n nm"
  shows "length h' = length h"
    and "(u' \<longleftrightarrow> u \<or> unrevealedAt h nm pos d)"
    and "b < n \<Longrightarrow> h' ! b = h ! b"
    and "b < length h \<Longrightarrow> revealed (h ! b) \<Longrightarrow> revealed (h' ! b)"
    and "\<not> unrevealedAt h nm pos d \<Longrightarrow> h' = h"
proof -
  obtain dx dy where d: "d = (dx, dy)"
    by (cases d)
  define nx ny where "nx = fst pos + dx" and "ny = snd pos + dy"
  show "length h' = length h"
    using assms(1) unfolding d
    by (auto simp: Let_def split: if_splits option.splits)
  show "(u' \<longleftrightarrow> u \<or> unrevealedAt h nm pos d)"
    using assms(1) unfolding d
    by (auto simp: Let_def split: if_splits option.splits)
  show "h' ! b = h ! b" if "b < n"
    using assms(1) that freshRefs_refAt [OF assms(2)] unfolding d
    by (fastforce simp: Let_def split: if_splits option.splits)
  show "revealed (h' ! b)" if "b < length h" "revealed (h ! b)"
    using assms(1) that unfolding d
    by (auto simp: Let_def split: if_splits option.splits) (metis nth_list_update_neq)
  show "h' = h" if "\<not> unrevealedAt h nm pos d"
    using assms(1) that unfolding d
    by (auto simp: Let_def split: if_splits option.splits)
qed

lemma scanLoop_props:
  assumes "scanLoop tg nm pos ds (h, rs, u) = Some (h', rs', u')" and "freshRefs n nm"
  shows "length h' = length h
    \<and> (u' \<longleftrightarrow> u \<or> (\<exists>d \<in> set ds. unrevealedAt h nm pos d))
    \<and> (\<forall>b < n. h' ! b = h ! b)
    \<and> (\<forall>b < length h. revealed (h ! b) \<longrightarrow> revealed (h' ! b))"
  using assms(1)
proof (induction ds arbitrary: h rs u)
  case Nil
  then show ?case by simp
next
  case (Cons d ds)
  obtain h1 rs1 u1 where step: "scanCell tg nm pos d (h, rs, u) = Some (h1, rs1, u1)"
    and rest: "scanLoop tg nm pos ds (h1, rs1, u1) = Some (h', rs', u')"
    using Cons.prems by (auto split: option.splits)
  note c = scanCell_props [OF step assms(2)]
  note ih = Cons.IH [OF rest]
  have len: "length h' = length h"
    using ih c(1) by simp
  have frame: "\<forall>b < n. h' ! b = h ! b"
    using ih c(3) by simp
  have mono: "\<forall>b < length h. revealed (h ! b) \<longrightarrow> revealed (h' ! b)"
    using ih c(1) c(4) by simp
  have upd: "u' \<longleftrightarrow> u \<or> (\<exists>e \<in> set (d # ds). unrevealedAt h nm pos e)"
  proof (cases "unrevealedAt h nm pos d")
    case True
    then show ?thesis using ih c(2) by simp
  next
    case False
    then have "h1 = h" by (rule c(5))
    then show ?thesis using ih c(2) False by simp
  qed
  show ?case
    using len frame mono upd by blast
qed


lemma fullGrid_refAt:
  assumes "fullGrid g" and "inBounds nx ny"
  shows "\<exists>a. refAt g nx ny = Some a"
proof -
  have "nat ny < length g"
    using assms by (simp add: fullGrid_def inBounds_def)
  moreover from this have "length (g ! nat ny) = nat GRID_SIZE"
    using assms(1) by (simp add: fullGrid_def)
  ultimately show ?thesis
    using assms(2) by (simp add: refAt_def inBounds_def)
qed

lemma scanCell_total:
  assumes "fullGrid tg" and "fullGrid nm"
  shows "\<exists>st'. scanCell tg nm pos d st = Some st'"
proof -
  obtain dx dy where d: "d = (dx, dy)"
    by (cases d)
  obtain h rs u where st: "st = (h, rs, u)"
    by (rule prod_cases3)
  show ?thesis
  proof (cases "inBounds (fst pos + dx) (snd pos + dy)")
    case True
    obtain a b where "refAt tg (fst pos + dx) (snd pos + dy) = Some a"
      and "refAt nm (fst pos + dx) (snd pos + dy) = Some b"
      using fullGrid_refAt [OF assms(1) True] fullGrid_refAt [OF assms(2) True] by blast
    then show ?thesis
      using True unfolding d st by (auto simp: Let_def)
  next
    case False
    then show ?thesis
      unfolding d st by (auto simp: Let_def)
  qed
qed

lemma scanLoop_total:
  assumes "fullGrid tg" and "fullGrid nm"
  shows "\<exists>st'. scanLoop tg nm pos ds st = Some st'"
proof (induction ds arbitrary: st)
  case Nil
  show ?case by (rule exI [of _ st]) simp
next
  case (Cons d ds)
  obtain st1 where "scanCell tg nm pos d st = Some st1"
    using scanCell_total [OF assms] by blast
  then show ?case
    using Cons.IH [of st1] by simp
qed

lemma fullGrid_shape:
  assumes "fullGrid g" and "length g' = length g"
    and "\<forall>y < length g. length (g' ! y) = length (g ! y)"
  shows "fullGrid g'"
  unfolding fullGrid_def
proof (intro conjI ballI)
  show "length g' = nat GRID_SIZE"
    using assms(1,2) unfolding fullGrid_def by simp
next
  fix row
  assume "row \<in> set g'"
  then obtain y where y: "y < length g'" "g' ! y = row"
    unfolding in_set_conv_nth by blast
  have "g ! y \<in> set g"
    using y(1) assms(2) by simp
  then have "length (g ! y) = nat GRID_SIZE"
    using assms(1) unfolding fullGrid_def by blast
  moreover have "length (g' ! y) = length (g ! y)"
    using assms(3) y(1) assms(2) by simp
  ultimately show "length row = nat GRID_SIZE"
    using y(2) by simp
qed

lemma scanEnvironment_total:
  assumes "validRefs h g" and "fullGrid g"
  shows "\<exists>h' res. scanEnvironment h g p = Some (h', res)"
proof -
  obtain nm h1 where copy: "copyGrid g h = (nm, h1)"
    by (cases "copyGrid g h")
  have "length nm = length g"
    by (rule copyGrid_length [OF assms(1) copy])
  moreover have "\<forall>y < length g. length (nm ! y) = length (g ! y)"
    using copyGrid_row_length [OF assms(1) copy] by simp
  ultimately have fn: "fullGrid nm"
    by (rule fullGrid_shape [OF assms(2)])
  obtain st' where st': "scanLoop g nm p sensorWindow (h1, [], False) = Some st'"
    using scanLoop_total [OF assms(2) fn] by blast
  obtain h2 rs u where "st' = (h2, rs, u)"
    by (rule prod_cases3)
  then show ?thesis
    using copy st' by (simp add: scanEnvironment_def)
qed


lemma take_old_store:
  assumes "length h \<le> length h2" and "\<forall>b < length h. h2 ! b = h ! b"
  shows "\<exists>k. h2 = h @ k"
proof -
  have "take (length h) h2 = h"
    using assms by (intro nth_equalityI) simp_all
  then have "h2 = h @ drop (length h) h2"
    by (metis append_take_drop_id)
  then show ?thesis ..
qed

text \<open>
  What one call does, for a grid whose references are allocated: the pieces both claims
  about \<open>scanEnvironment\<close> are put together from.
\<close>

lemma scanEnvironment_props:
  assumes v: "validRefs h g" and run: "scanEnvironment h g p = Some (h', res)"
  shows "\<exists>k. h' = h @ k"
    and "newMapState res = g \<longleftrightarrow> \<not> (\<exists>d \<in> set sensorWindow. unrevealedAt h g p d)"
    and "newMapState res \<noteq> g \<Longrightarrow> freshRefs (length h) (newMapState res)"
    and "length (newMapState res) = length g"
    and "y < length g \<Longrightarrow> length (newMapState res ! y) = length (g ! y)"
    and "y < length g \<Longrightarrow> x < length (g ! y) \<Longrightarrow>
         newMapState res ! y ! x < length h'
         \<and> (revealed (h ! (g ! y ! x)) \<longrightarrow> revealed (h' ! (newMapState res ! y ! x)))"
proof -
  obtain nm h1 where copy: "copyGrid g h = (nm, h1)"
    by (cases "copyGrid g h")
  obtain rs u where loop: "scanLoop g nm p sensorWindow (h1, [], False) = Some (h', rs, u)"
    and res: "res = \<lparr>readings = rs, newMapState = (if u then nm else g)\<rparr>"
    using run copy by (auto simp: scanEnvironment_def split: option.splits)
  note len = copyGrid_length [OF v copy]
  note rowlen = copyGrid_row_length [OF v copy]
  note cell = copyGrid_cell [OF v copy]
  obtain k1 where k1: "h1 = h @ k1"
    using copyGrid_prefix [OF v copy] by blast
  have fresh: "freshRefs (length h) nm"
    unfolding freshRefs_def using cell len rowlen by simp
  note lp = scanLoop_props [OF loop fresh]
  have hlen: "length h' = length h1"
    using lp by blast
  have frame: "h' ! b = h1 ! b" if "b < length h" for b
    using lp that by blast
  have mono: "revealed (h' ! b)" if "b < length h1" "revealed (h1 ! b)" for b
    using lp that by blast
  have upd: "u \<longleftrightarrow> (\<exists>d \<in> set sensorWindow. unrevealedAt h1 nm p d)"
    using lp by blast
  have same: "unrevealedAt h1 nm p d = unrevealedAt h g p d" for d
  proof -
    obtain dx dy where d: "d = (dx, dy)"
      by (cases d)
    define nx ny where "nx = fst p + dx" and "ny = snd p + dy"
    have "(case refAt nm nx ny of None \<Rightarrow> False | Some b \<Rightarrow> \<not> revealed (h1 ! b))
        = (case refAt g nx ny of None \<Rightarrow> False | Some b \<Rightarrow> \<not> revealed (h ! b))"
    proof (cases "0 \<le> ny \<and> nat ny < length g \<and> 0 \<le> nx \<and> nat nx < length (g ! nat ny)")
      case True
      then have "h1 ! (nm ! nat ny ! nat nx) = h ! (g ! nat ny ! nat nx)"
        using cell [of "nat ny" "nat nx"] by simp
      then show ?thesis
        using True len rowlen [of "nat ny"] by (simp add: refAt_def)
    next
      case False
      then show ?thesis
        using len rowlen [of "nat ny"] by (auto simp: refAt_def)
    qed
    then show ?thesis
      unfolding d nx_def ny_def by simp
  qed
  have upd': "u \<longleftrightarrow> (\<exists>d \<in> set sensorWindow. unrevealedAt h g p d)"
    using upd same by simp
  show "\<exists>k. h' = h @ k"
  proof (rule take_old_store)
    show "length h \<le> length h'"
      using hlen k1 by simp
    show "\<forall>b < length h. h' ! b = h ! b"
      using frame k1 by (simp add: nth_append)
  qed
  show "newMapState res = g \<longleftrightarrow> \<not> (\<exists>d \<in> set sensorWindow. unrevealedAt h g p d)"
  proof (cases u)
    case False
    then show ?thesis
      using upd' res by simp
  next
    case True
    then obtain d where "unrevealedAt h g p d"
      using upd' by blast
    then obtain nx ny a where "refAt g nx ny = Some a"
      by (cases d) (auto split: option.splits)
    then have pos: "nat ny < length g" "nat nx < length (g ! nat ny)"
      by (simp_all add: refAt_Some)
    have "length h \<le> nm ! nat ny ! nat nx"
      using cell [OF pos] by simp
    moreover have "g ! nat ny ! nat nx < length h"
      using validRefs_nth [OF v pos] .
    ultimately have "nm \<noteq> g"
      by auto
    then show ?thesis
      using True upd' res by simp
  qed
  show "freshRefs (length h) (newMapState res)" if "newMapState res \<noteq> g"
    using that fresh res by (cases u) simp_all
  show "length (newMapState res) = length g"
    using len res by simp
  show "length (newMapState res ! y) = length (g ! y)" if "y < length g"
    using rowlen [OF that] res by simp
  show "newMapState res ! y ! x < length h'
         \<and> (revealed (h ! (g ! y ! x)) \<longrightarrow> revealed (h' ! (newMapState res ! y ! x)))"
    if yx: "y < length g" "x < length (g ! y)"
  proof (cases u)
    case True
    have "nm ! y ! x < length h1" "h1 ! (nm ! y ! x) = h ! (g ! y ! x)"
      using cell [OF yx] by simp_all
    then show ?thesis
      using True res hlen mono [of "nm ! y ! x"] by simp
  next
    case False
    have old: "g ! y ! x < length h"
      using validRefs_nth [OF v yx] .
    then have "h' ! (g ! y ! x) = h ! (g ! y ! x)"
      using frame [OF old] k1 by (simp add: nth_append)
    then show ?thesis
      using False res old hlen k1 by simp
  qed
qed


text \<open>
  Grid \<open>g'\<close> in store \<open>h'\<close> has the shape of grid \<open>g\<close> in store \<open>h\<close>, and
  every cell revealed in the latter is revealed in the former.
\<close>

definition revealedKept :: "heap \<Rightarrow> GridRef \<Rightarrow> heap \<Rightarrow> GridRef \<Rightarrow> bool" where
  "revealedKept h g h' g' \<longleftrightarrow>
     length g' = length g \<and>
     (\<forall>y < length g. length (g' ! y) = length (g ! y) \<and>
        (\<forall>x < length (g ! y). revealed (h ! (g ! y ! x)) \<longrightarrow> revealed (h' ! (g' ! y ! x))))"

lemma revealedKept_refl: "revealedKept h g h g"
  by (simp add: revealedKept_def)

lemma revealedKept_trans:
  assumes "revealedKept h g h1 g1" and "revealedKept h1 g1 h2 g2"
  shows "revealedKept h g h2 g2"
  unfolding revealedKept_def
proof (intro conjI allI impI)
  show "length g2 = length g"
    using assms by (simp add: revealedKept_def)
next
  fix y assume y: "y < length g"
  then have y1: "y < length g1"
    using assms(1) by (simp add: revealedKept_def)
  have l1: "length (g1 ! y) = length (g ! y)"
    using assms(1) y unfolding revealedKept_def by blast
  have l2: "length (g2 ! y) = length (g1 ! y)"
    using assms(2) y1 unfolding revealedKept_def by blast
  show "length (g2 ! y) = length (g ! y)"
    using l1 l2 by simp
  fix x assume x: "x < length (g ! y)" and r: "revealed (h ! (g ! y ! x))"
  have "revealed (h1 ! (g1 ! y ! x))"
    using assms(1) y x r unfolding revealedKept_def by blast
  then show "revealed (h2 ! (g2 ! y ! x))"
    using assms(2) y1 x l1 unfolding revealedKept_def by simp
qed

lemma scanEnvironment_kept:
  assumes "validRefs h g" and "scanEnvironment h g p = Some (h', res)"
  shows "revealedKept h g h' (newMapState res)" and "validRefs h' (newMapState res)"
proof -
  note pr = scanEnvironment_props [OF assms]
  show "revealedKept h g h' (newMapState res)"
    unfolding revealedKept_def using pr(4) pr(5) pr(6) by simp
  show "validRefs h' (newMapState res)"
    unfolding validRefs_def
  proof (intro ballI)
    fix row a
    assume "row \<in> set (newMapState res)" and "a \<in> set row"
    then obtain y x where "y < length (newMapState res)" "newMapState res ! y = row"
      "x < length row" "row ! x = a"
      unfolding in_set_conv_nth by blast
    then show "a < length h'"
      using pr(4) pr(5) [of y] pr(6) [of y x] by auto
  qed
qed

lemma scanEnvironment_fullGrid:
  assumes "validRefs h g" and "scanEnvironment h g p = Some (h', res)" and "fullGrid g"
  shows "fullGrid (newMapState res)"
  using scanEnvironment_props(4,5) [OF assms(1,2)]
  by (intro fullGrid_shape [OF assms(3)]) simp_all

lemma scanSequence_kept:
  "validRefs h g \<Longrightarrow> scanSequence h g ps = Some (h', g') \<Longrightarrow> revealedKept h g h' g'"
proof (induction ps arbitrary: h g)
  case Nil
  then show ?case by (simp add: revealedKept_refl)
next
  case (Cons p ps)
  obtain h1 res where one: "scanEnvironment h g p = Some (h1, res)"
    and rest: "scanSequence h1 (newMapState res) ps = Some (h', g')"
    using Cons.prems(2) by (auto split: option.splits)
  note k = scanEnvironment_kept [OF Cons.prems(1) one]
  show ?case
    using k(1) Cons.IH [OF k(2) rest] by (rule revealedKept_trans)
qed

lemma scanSequence_total:
  "validRefs h g \<Longrightarrow> fullGrid g \<Longrightarrow> \<exists>h' g'. scanSequence h g ps = Some (h', g')"
proof (induction ps arbitrary: h g)
  case Nil
  then show ?case by simp
next
  case (Cons p ps)
  obtain h1 res where one: "scanEnvironment h g p = Some (h1, res)"
    using scanEnvironment_total [OF Cons.prems] by blast
  have "\<exists>h' g'. scanSequence h1 (newMapState res) ps = Some (h', g')"
    using scanEnvironment_kept(2) [OF Cons.prems(1) one]
      scanEnvironment_fullGrid [OF Cons.prems(1) one Cons.prems(2)]
    by (rule Cons.IH)
  then show ?case
    using one by simp
qed

text \<open>
  Claim C7. For every grid whose references are allocated and every robot position, a
  call that returns gives a grid of the same shape in which every cell revealed in the
  input is revealed; the same holds from the first grid to the last across any sequence of
  scans in which each call scans the grid the previous one returned. On a grid of
  \<open>GRID_SIZE\<close> rows of \<open>GRID_SIZE\<close> cells every call returns.
\<close>

theorem scanEnvironment_reveal_monotone:
  assumes "validRefs h g"
  shows "(\<forall>h' res. scanEnvironment h g p = Some (h', res) \<longrightarrow>
            revealedKept h g h' (newMapState res))
     \<and> (\<forall>h' g'. scanSequence h g ps = Some (h', g') \<longrightarrow> revealedKept h g h' g')
     \<and> (fullGrid g \<longrightarrow>
          (\<exists>h' res. scanEnvironment h g p = Some (h', res))
          \<and> (\<exists>h' g'. scanSequence h g ps = Some (h', g')))"
  using scanEnvironment_kept(1) [OF assms] scanSequence_kept [OF assms]
    scanEnvironment_total [OF assms] scanSequence_total [OF assms]
  by blast

text \<open>
  A store and grid as the scenario initialisation leaves them: 225 cells, the start
  cell at the origin, the 2 by 2 corner revealed.
\<close>

definition sampleStore :: heap where
  "sampleStore =
     map (\<lambda>i. \<lparr>cell_x = int (i mod 15), cell_y = int (i div 15),
               ctype = (if i = 0 then START else EMPTY),
               revealed = (i mod 15 < 2 \<and> i div 15 < 2), difficulty = 1\<rparr>) [0..<225]"

definition sampleGrid :: GridRef where
  "sampleGrid = map (\<lambda>y. map (\<lambda>x. y * 15 + x) [0..<15]) [0..<15]"

lemma sample_valid: "validRefs sampleStore sampleGrid"
  by (auto simp: validRefs_def sampleStore_def sampleGrid_def)

lemma sample_full: "fullGrid sampleGrid"
  by (auto simp: fullGrid_def sampleGrid_def GRID_SIZE_def)

theorem scanEnvironment_reveal_monotone_witness:
  "validRefs sampleStore sampleGrid \<and> fullGrid sampleGrid
   \<and> (\<exists>h' res. scanEnvironment sampleStore sampleGrid (3, 0) = Some (h', res)
        \<and> revealedKept sampleStore sampleGrid h' (newMapState res))
   \<and> (\<exists>h' g'. scanSequence sampleStore sampleGrid [(0, 0), (1, 0), (2, 0)] = Some (h', g')
        \<and> revealedKept sampleStore sampleGrid h' g')"
  using scanEnvironment_reveal_monotone
    [OF sample_valid, of "(3, 0)" "[(0, 0), (1, 0), (2, 0)]"] sample_valid sample_full
  by blast


lemma set_sensorWindow:
  "(dx, dy) \<in> set sensorWindow \<longleftrightarrow> - 2 \<le> dx \<and> dx \<le> 2 \<and> - 2 \<le> dy \<and> dy \<le> 2"
  unfolding sensorWindow_def SENSOR_RADIUS_def
  by (auto simp: image_iff simp del: upto_rec_numeral)

lemma sample_unrevealed: "\<exists>d \<in> set sensorWindow. unrevealedAt sampleStore sampleGrid (5, 5) d"
proof
  show "(0, 0) \<in> set sensorWindow"
    by (simp add: set_sensorWindow)
  show "unrevealedAt sampleStore sampleGrid (5, 5) (0, 0)"
    by (simp add: inBounds_def GRID_SIZE_def refAt_def sampleGrid_def sampleStore_def)
qed

text \<open>
  Claim C9. For every grid whose references are allocated and every robot position, a
  call that returns leaves every object that existed before it as it was (the old store
  is a prefix of the new one), so every cell of the input grid keeps its type and its
  revealed flag. The grid returned is the input grid exactly when no in-bounds cell of
  the sensor window was unrevealed; otherwise it consists of freshly allocated cells
  only, and the newly revealed cells are among those. On a grid of \<open>GRID_SIZE\<close> rows
  of \<open>GRID_SIZE\<close> cells the call returns.
\<close>

theorem scanEnvironment_frame:
  assumes "validRefs h g"
  shows "(fullGrid g \<longrightarrow> (\<exists>h' res. scanEnvironment h g p = Some (h', res)))
     \<and> (\<forall>h' res. scanEnvironment h g p = Some (h', res) \<longrightarrow>
          (\<exists>k. h' = h @ k)
          \<and> (\<forall>y < length g. \<forall>x < length (g ! y). h' ! (g ! y ! x) = h ! (g ! y ! x))
          \<and> (newMapState res = g \<longleftrightarrow> \<not> (\<exists>d \<in> set sensorWindow. unrevealedAt h g p d))
          \<and> (newMapState res \<noteq> g \<longrightarrow> freshRefs (length h) (newMapState res)))"
proof -
  have b: "(\<exists>k. h' = h @ k)
          \<and> (\<forall>y < length g. \<forall>x < length (g ! y). h' ! (g ! y ! x) = h ! (g ! y ! x))
          \<and> (newMapState res = g \<longleftrightarrow> \<not> (\<exists>d \<in> set sensorWindow. unrevealedAt h g p d))
          \<and> (newMapState res \<noteq> g \<longrightarrow> freshRefs (length h) (newMapState res))"
    if run: "scanEnvironment h g p = Some (h', res)" for h' res
  proof -
    note pr = scanEnvironment_props [OF assms run]
    obtain k where k: "h' = h @ k"
      using pr(1) by blast
    have "h' ! (g ! y ! x) = h ! (g ! y ! x)" if "y < length g" "x < length (g ! y)" for y x
      using validRefs_nth [OF assms that] k by (simp add: nth_append)
    then show ?thesis
      using pr(1) pr(2) pr(3) by blast
  qed
  show ?thesis
    using b scanEnvironment_total [OF assms] by blast
qed

theorem scanEnvironment_frame_witness:
  "validRefs sampleStore sampleGrid \<and> fullGrid sampleGrid
   \<and> (\<exists>h' res. scanEnvironment sampleStore sampleGrid (5, 5) = Some (h', res)
        \<and> (\<exists>k. h' = sampleStore @ k)
        \<and> newMapState res \<noteq> sampleGrid
        \<and> freshRefs (length sampleStore) (newMapState res))"
  using scanEnvironment_frame [OF sample_valid, of "(5, 5)"] sample_valid sample_full
    sample_unrevealed
  by blast

section \<open>World model (App.tsx, initSimulation)\<close>

text \<open>
  The grid that \<open>initSimulation\<close> builds is made of objects of its own, so it is
  modelled by value: rows of cells. \<open>Math.random\<close> is a stream \<open>rand\<close> of draws;
  each function takes the number of draws consumed so far and returns the new number.
\<close>

type_synonym Grid = "Cell list list"

record ScenarioConfig =
  scenarioName :: string
  obstacleDensity :: real
  victimCount :: int
  fireCount :: int

definition newCell :: "int \<Rightarrow> int \<Rightarrow> CellType \<Rightarrow> Cell" where
  "newCell x y t =
     \<lparr>cell_x = x, cell_y = y, ctype = t, revealed = (x < 2 \<and> y < 2),
      difficulty = MOVEMENT_COST t\<rparr>"

text \<open>The body of the inner generation loop for the cell at \<open>(x, y)\<close>.\<close>

definition generateCell ::
  "ScenarioConfig \<Rightarrow> (nat \<Rightarrow> real) \<Rightarrow> int \<Rightarrow> int \<Rightarrow> nat \<Rightarrow> Cell \<times> nat" where
  "generateCell scenario rand y x i =
     (if x = 0 \<and> y = 0 then (newCell x y START, i + 1)
      else if rand i < obstacleDensity scenario
      then (newCell x y (if rand (i + 1) > 0.5 then WALL else DEBRIS), i + 2)
      else (newCell x y EMPTY, i + 1))"

fun generateRow ::
  "ScenarioConfig \<Rightarrow> (nat \<Rightarrow> real) \<Rightarrow> int \<Rightarrow> int list \<Rightarrow> nat \<Rightarrow> Cell list \<times> nat" where
  "generateRow scenario rand y [] i = ([], i)"
| "generateRow scenario rand y (x # xs) i =
     (case generateCell scenario rand y x i of (c, i1) \<Rightarrow>
        (case generateRow scenario rand y xs i1 of (cs, i2) \<Rightarrow> (c # cs, i2)))"

fun generateRows ::
  "ScenarioConfig \<Rightarrow> (nat \<Rightarrow> real) \<Rightarrow> int list \<Rightarrow> nat \<Rightarrow> Grid \<times> nat" where
  "generateRows scenario rand [] i = ([], i)"
| "generateRows scenario rand (y # ys) i =
     (case generateRow scenario rand y [0..GRID_SIZE - 1] i of (row, i1) \<Rightarrow>
        (case generateRows scenario rand ys i1 of (rows, i2) \<Rightarrow> (row # rows, i2)))"

definition generateGrid :: "ScenarioConfig \<Rightarrow> (nat \<Rightarrow> real) \<Rightarrow> Grid \<times> nat" where
  "generateGrid scenario rand = generateRows scenario rand [0..GRID_SIZE - 1] 0"

text \<open>\<open>grid[y][x]\<close> followed by a field access: \<open>None\<close> is the TypeError.\<close>

definition cellAt :: "Grid \<Rightarrow> int \<Rightarrow> int \<Rightarrow> Cell option" where
  "cellAt g cx cy =
     (if 0 \<le> cy \<and> nat cy < length g \<and> 0 \<le> cx \<and> nat cx < length (g ! nat cy)
      then Some (g ! nat cy ! nat cx) else None)"

text \<open>\<open>grid[y][x].type = t\<close> on a cell that exists.\<close>

definition setType :: "Grid \<Rightarrow> int \<Rightarrow> int \<Rightarrow> CellType \<Rightarrow> Grid" where
  "setType g cx cy t =
     g[nat cy := (g ! nat cy)[nat cx := (g ! nat cy ! nat cx)\<lparr>ctype := t\<rparr>]]"

text \<open>
  The \<open>while\<close> loop of \<open>placeRandom\<close>; the state is the grid and the number of
  draws consumed.
\<close>

function placeLoop ::
  "(nat \<Rightarrow> real) \<Rightarrow> CellType \<Rightarrow> int \<Rightarrow> int \<Rightarrow> nat \<Rightarrow> Grid \<times> nat \<Rightarrow> (Grid \<times> nat) option" where
  "placeLoop rand t count placed attempts (g, i) =
     (if placed < count \<and> attempts < 1000 then
        (let rx = \<lfloor>rand i * of_int GRID_SIZE\<rfloor>;
             ry = \<lfloor>rand (i + 1) * of_int GRID_SIZE\<rfloor>
         in case cellAt g rx ry of
              None \<Rightarrow> None
            | Some c \<Rightarrow>
                if ctype c = EMPTY \<and> (rx > 2 \<or> ry > 2)
                then placeLoop rand t count (placed + 1) (attempts + 1) (setType g rx ry t, i + 2)
                else placeLoop rand t count placed (attempts + 1) (g, i + 2))
      else Some (g, i))"
  by pat_completeness auto
termination
  by (relation "measure (\<lambda>(rand, t, count, placed, attempts, s). 1000 - attempts)") auto

declare placeLoop.simps [simp del]

definition placeRandom ::
  "(nat \<Rightarrow> real) \<Rightarrow> CellType \<Rightarrow> int \<Rightarrow> Grid \<times> nat \<Rightarrow> (Grid \<times> nat) option" where
  "placeRandom rand t count s = placeLoop rand t count 0 0 s"

text \<open>The grid \<open>initSimulation\<close> hands to \<open>setGrid\<close>.\<close>

definition initGrid :: "ScenarioConfig \<Rightarrow> (nat \<Rightarrow> real) \<Rightarrow> Grid option" where
  "initGrid scenario rand =
     (case placeRandom rand VICTIM (victimCount scenario) (generateGrid scenario rand) of
        None \<Rightarrow> None
      | Some s1 \<Rightarrow>
          (case placeRandom rand FIRE (fireCount scenario) s1 of
             None \<Rightarrow> None
           | Some (g, i) \<Rightarrow> Some g))"


section \<open>Properties of the generated grid\<close>

text \<open>A cell as the generation loop makes it at \<open>(x, y)\<close>: never a victim or a fire.\<close>

definition generated :: "Cell \<Rightarrow> int \<Rightarrow> int \<Rightarrow> bool" where
  "generated c x y \<longleftrightarrow> (\<exists>t. c = newCell x y t \<and> t \<noteq> VICTIM \<and> t \<noteq> FIRE)"

lemma generateCell_generated:
  "generateCell scenario rand y x i = (c, j) \<Longrightarrow> generated c x y"
  by (auto simp: generateCell_def generated_def split: if_splits)

lemma generateRow_generated:
  "generateRow scenario rand y xs i = (cs, j) \<Longrightarrow>
   length cs = length xs \<and> (\<forall>k < length xs. generated (cs ! k) (xs ! k) y)"
proof (induction xs arbitrary: i cs j)
  case Nil
  then show ?case by simp
next
  case (Cons x xs)
  obtain c i1 where c: "generateCell scenario rand y x i = (c, i1)"
    by (cases "generateCell scenario rand y x i")
  obtain cs' i2 where r: "generateRow scenario rand y xs i1 = (cs', i2)"
    by (cases "generateRow scenario rand y xs i1")
  have cs: "cs = c # cs'"
    using Cons.prems c r by simp
  note ih = Cons.IH [OF r]
  have "generated (cs ! k) ((x # xs) ! k) y" if "k < length (x # xs)" for k
    using that ih generateCell_generated [OF c] cs by (cases k) simp_all
  then show ?case
    using ih cs by simp
qed

lemma columns: "length [0..GRID_SIZE - 1] = 15" "m < 15 \<Longrightarrow> [0..GRID_SIZE - 1] ! m = int m"
  by (simp_all add: GRID_SIZE_def nth_upto del: upto_rec_numeral)

text \<open>A grid of values of \<open>GRID_SIZE\<close> rows of \<open>GRID_SIZE\<close> cells.\<close>

definition fullCells :: "Grid \<Rightarrow> bool" where
  "fullCells g \<longleftrightarrow> length g = 15 \<and> (\<forall>y < 15. length (g ! y) = 15)"

lemma generateRows_generated:
  "generateRows scenario rand ys i = (rows, j) \<Longrightarrow>
   length rows = length ys
   \<and> (\<forall>k < length ys. length (rows ! k) = 15
         \<and> (\<forall>m < 15. generated (rows ! k ! m) (int m) (ys ! k)))"
proof (induction ys arbitrary: i rows j)
  case Nil
  then show ?case by simp
next
  case (Cons y ys)
  obtain row i1 where c: "generateRow scenario rand y [0..GRID_SIZE - 1] i = (row, i1)"
    by (cases "generateRow scenario rand y [0..GRID_SIZE - 1] i")
  obtain rows' i2 where r: "generateRows scenario rand ys i1 = (rows', i2)"
    by (cases "generateRows scenario rand ys i1")
  have rows: "rows = row # rows'"
    using Cons.prems c r by simp
  note ih = Cons.IH [OF r]
  note g = generateRow_generated [OF c]
  have first: "length row = 15 \<and> (\<forall>m < 15. generated (row ! m) (int m) y)"
    using g by (simp add: columns GRID_SIZE_def)
  have "length (rows ! k) = 15 \<and> (\<forall>m < 15. generated (rows ! k ! m) (int m) ((y # ys) ! k))"
    if "k < length (y # ys)" for k
    using that ih first rows by (cases k) simp_all
  then show ?case
    using ih rows by simp
qed

lemma generateGrid_generated:
  assumes "generateGrid scenario rand = (base, i)"
  shows "fullCells base" and "y < 15 \<Longrightarrow> x < 15 \<Longrightarrow> generated (base ! y ! x) (int x) (int y)"
proof -
  note g = generateRows_generated [OF assms [unfolded generateGrid_def]]
  show "fullCells base"
    using g by (simp add: fullCells_def columns GRID_SIZE_def)
  show "generated (base ! y ! x) (int x) (int y)" if "y < 15" "x < 15"
    using g that by (simp add: columns GRID_SIZE_def)
qed


text \<open>
  Grid \<open>g'\<close> comes from grid \<open>g\<close> by turning cells that are Empty and lie outside
  the corner \<open>x \<le> 2, y \<le> 2\<close> into cells of type \<open>t\<close>, and by nothing else.
\<close>

definition placedOn :: "CellType \<Rightarrow> Grid \<Rightarrow> Grid \<Rightarrow> bool" where
  "placedOn t g g' \<longleftrightarrow>
     fullCells g' \<and>
     (\<forall>y < 15. \<forall>x < 15.
        g' ! y ! x = g ! y ! x \<or>
        (ctype (g ! y ! x) = EMPTY \<and> (2 < x \<or> 2 < y) \<and> g' ! y ! x = (g ! y ! x)\<lparr>ctype := t\<rparr>))"

lemma placedOn_refl: "fullCells g \<Longrightarrow> placedOn t g g"
  by (simp add: placedOn_def)

lemma placedOn_trans:
  assumes "t \<noteq> EMPTY" and "placedOn t g g1" and "placedOn t g1 g2"
  shows "placedOn t g g2"
  unfolding placedOn_def
proof (intro conjI allI impI)
  show "fullCells g2"
    using assms(3) by (simp add: placedOn_def)
next
  fix y x :: nat
  assume yx: "y < 15" "x < 15"
  have a: "g1 ! y ! x = g ! y ! x \<or>
        (ctype (g ! y ! x) = EMPTY \<and> (2 < x \<or> 2 < y) \<and> g1 ! y ! x = (g ! y ! x)\<lparr>ctype := t\<rparr>)"
    using assms(2) yx unfolding placedOn_def by blast
  have b: "g2 ! y ! x = g1 ! y ! x \<or>
        (ctype (g1 ! y ! x) = EMPTY \<and> (2 < x \<or> 2 < y) \<and> g2 ! y ! x = (g1 ! y ! x)\<lparr>ctype := t\<rparr>)"
    using assms(3) yx unfolding placedOn_def by blast
  show "g2 ! y ! x = g ! y ! x \<or>
        (ctype (g ! y ! x) = EMPTY \<and> (2 < x \<or> 2 < y) \<and> g2 ! y ! x = (g ! y ! x)\<lparr>ctype := t\<rparr>)"
    using a b assms(1) by auto
qed

lemma cellAt_Some:
  "cellAt g cx cy = Some c \<longleftrightarrow>
     0 \<le> cy \<and> nat cy < length g \<and> 0 \<le> cx \<and> nat cx < length (g ! nat cy)
     \<and> c = g ! nat cy ! nat cx"
  by (auto simp: cellAt_def)

lemma nth_update_any: "xs[i := v] ! j = (if i = j \<and> i < length xs then v else xs ! j)"
  by (cases "i < length xs") (auto simp: nth_list_update list_update_beyond)

lemma setType_nth:
  assumes "fullCells g" and "y < 15" and "x < 15"
  shows "setType g rx ry t ! y ! x
    = (if y = nat ry \<and> x = nat rx then (g ! y ! x)\<lparr>ctype := t\<rparr> else g ! y ! x)"
  using assms by (auto simp: setType_def fullCells_def nth_update_any)

lemma setType_fullCells: "fullCells g \<Longrightarrow> fullCells (setType g rx ry t)"
  by (auto simp: setType_def fullCells_def nth_update_any)

lemma setType_placedOn:
  assumes "fullCells g" and "cellAt g rx ry = Some c" and "ctype c = EMPTY"
    and "rx > 2 \<or> ry > 2"
  shows "placedOn t g (setType g rx ry t)"
  unfolding placedOn_def
proof (intro conjI allI impI)
  show "fullCells (setType g rx ry t)"
    using assms(1) by (rule setType_fullCells)
next
  fix y x :: nat
  assume yx: "y < 15" "x < 15"
  have c: "c = g ! nat ry ! nat rx" and pos: "0 \<le> rx" "0 \<le> ry"
    using assms(2) by (simp_all add: cellAt_Some)
  show "setType g rx ry t ! y ! x = g ! y ! x \<or>
        (ctype (g ! y ! x) = EMPTY \<and> (2 < x \<or> 2 < y)
         \<and> setType g rx ry t ! y ! x = (g ! y ! x)\<lparr>ctype := t\<rparr>)"
  proof (cases "y = nat ry \<and> x = nat rx")
    case True
    then have "2 < x \<or> 2 < y"
      using assms(4) pos by auto
    then show ?thesis
      using True assms(3) c setType_nth [OF assms(1) yx, of rx ry t] by simp
  next
    case False
    then show ?thesis
      using setType_nth [OF assms(1) yx, of rx ry t] by auto
  qed
qed

lemma placeLoop_unfold:
  "placeLoop rand t count placed attempts (g, i) =
     (if placed < count \<and> attempts < 1000 then
        (case cellAt g \<lfloor>rand i * of_int GRID_SIZE\<rfloor> \<lfloor>rand (i + 1) * of_int GRID_SIZE\<rfloor> of
           None \<Rightarrow> None
         | Some c \<Rightarrow>
             if ctype c = EMPTY
                \<and> (\<lfloor>rand i * of_int GRID_SIZE\<rfloor> > 2 \<or> \<lfloor>rand (i + 1) * of_int GRID_SIZE\<rfloor> > 2)
             then placeLoop rand t count (placed + 1) (attempts + 1)
                    (setType g \<lfloor>rand i * of_int GRID_SIZE\<rfloor>
                       \<lfloor>rand (i + 1) * of_int GRID_SIZE\<rfloor> t, i + 2)
             else placeLoop rand t count placed (attempts + 1) (g, i + 2))
      else Some (g, i))"
  by (subst placeLoop.simps) (simp only: Let_def)

lemma placeLoop_placedOn:
  "t \<noteq> EMPTY \<Longrightarrow> fullCells (fst s) \<Longrightarrow>
   placeLoop rand t count placed attempts s = Some s' \<Longrightarrow> placedOn t (fst s) (fst s')"
proof (induction rand t count placed attempts s rule: placeLoop.induct)
  case (1 rand t count placed attempts g i)
  define rx ry where "rx = \<lfloor>rand i * of_int GRID_SIZE\<rfloor>"
    and "ry = \<lfloor>rand (i + 1) * of_int GRID_SIZE\<rfloor>"
  note ne = "1.prems"(1)
  have full: "fullCells g"
    using "1.prems"(2) by simp
  note run = "1.prems"(3) [unfolded placeLoop_unfold [of rand t count placed attempts g i],
      folded rx_def ry_def]
  show ?case
  proof (cases "placed < count \<and> attempts < 1000")
    case False
    then show ?thesis
      using run full by (auto simp: placedOn_refl)
  next
    case True
    then obtain c where c: "cellAt g rx ry = Some c"
      using run by (auto split: option.splits)
    show ?thesis
    proof (cases "ctype c = EMPTY \<and> (rx > 2 \<or> ry > 2)")
      case yes: True
      then have rest: "placeLoop rand t count (placed + 1) (attempts + 1)
          (setType g rx ry t, i + 2) = Some s'"
        using run True c by simp
      have f2: "fullCells (fst (setType g rx ry t, i + 2))"
        using setType_fullCells [OF full] by simp
      have p1: "placedOn t (setType g rx ry t) (fst s')"
        using "1.IH"(1) [OF True rx_def ry_def c yes ne f2 rest] by simp
      have p2: "placedOn t g (setType g rx ry t)"
        using setType_placedOn [OF full c] yes by blast
      show ?thesis
        using placedOn_trans [OF ne p2 p1] by simp
    next
      case no: False
      have "(if ctype c = EMPTY \<and> (rx > 2 \<or> ry > 2)
          then placeLoop rand t count (placed + 1) (attempts + 1) (setType g rx ry t, i + 2)
          else placeLoop rand t count placed (attempts + 1) (g, i + 2)) = Some s'"
        using run True c by simp
      then have rest: "placeLoop rand t count placed (attempts + 1) (g, i + 2) = Some s'"
        using no by (simp only: if_False)
      have f2: "fullCells (fst (g, i + 2))"
        using full by simp
      show ?thesis
        using "1.IH"(2) [OF True rx_def ry_def c no ne f2 rest] by simp
    qed
  qed
qed


lemma floor_draw:
  assumes "0 \<le> r" and "r < 1"
  shows "0 \<le> \<lfloor>r * of_int GRID_SIZE\<rfloor>" and "\<lfloor>r * of_int GRID_SIZE\<rfloor> < 15"
proof -
  have "0 \<le> r * 15" and "r * 15 < 15"
    using assms by simp_all
  then show "0 \<le> \<lfloor>r * of_int GRID_SIZE\<rfloor>" and "\<lfloor>r * of_int GRID_SIZE\<rfloor> < 15"
    by (simp_all add: GRID_SIZE_def floor_less_iff)
qed

lemma cellAt_full:
  assumes "fullCells g" and "0 \<le> cx" and "cx < 15" and "0 \<le> cy" and "cy < 15"
  shows "\<exists>c. cellAt g cx cy = Some c"
proof -
  have "nat cy < 15" and "nat cx < 15"
    using assms by linarith+
  then show ?thesis
    using assms by (simp add: cellAt_def fullCells_def)
qed

lemma placeLoop_total:
  "\<forall>i. 0 \<le> rand i \<and> rand i < 1 \<Longrightarrow> fullCells (fst s) \<Longrightarrow>
   \<exists>s'. placeLoop rand t count placed attempts s = Some s'"
proof (induction rand t count placed attempts s rule: placeLoop.induct)
  case (1 rand t count placed attempts g i)
  define rx ry where "rx = \<lfloor>rand i * of_int GRID_SIZE\<rfloor>"
    and "ry = \<lfloor>rand (i + 1) * of_int GRID_SIZE\<rfloor>"
  note rnd = "1.prems"(1)
  have full: "fullCells g"
    using "1.prems"(2) by simp
  note unfold = placeLoop_unfold [of rand t count placed attempts g i, folded rx_def ry_def]
  show ?case
  proof (cases "placed < count \<and> attempts < 1000")
    case False
    then have "placeLoop rand t count placed attempts (g, i) = Some (g, i)"
      unfolding unfold by (simp only: if_False)
    then show ?thesis
      by (rule exI)
  next
    case True
    have "0 \<le> rx" "rx < 15" "0 \<le> ry" "ry < 15"
      using rnd floor_draw [of "rand i"] floor_draw [of "rand (i + 1)"]
      unfolding rx_def ry_def by simp_all
    then obtain c where c: "cellAt g rx ry = Some c"
      using cellAt_full [OF full] by blast
    show ?thesis
    proof (cases "ctype c = EMPTY \<and> (rx > 2 \<or> ry > 2)")
      case yes: True
      have f2: "fullCells (fst (setType g rx ry t, i + 2))"
        using setType_fullCells [OF full] by simp
      have "\<exists>s'. placeLoop rand t count (placed + 1) (attempts + 1)
          (setType g rx ry t, i + 2) = Some s'"
        using "1.IH"(1) [OF True rx_def ry_def c yes rnd f2] .
      then show ?thesis
        unfolding unfold using True c yes by simp
    next
      case no: False
      have f2: "fullCells (fst (g, i + 2))"
        using full by simp
      have "\<exists>s'. placeLoop rand t count placed (attempts + 1) (g, i + 2) = Some s'"
        using "1.IH"(2) [OF True rx_def ry_def c no rnd f2] .
      then show ?thesis
        unfolding unfold using True c no by (simp only: if_True if_False option.case simp_thms)
    qed
  qed
qed


lemma placeRandom_total:
  assumes "\<forall>i. 0 \<le> rand i \<and> rand i < 1" and "fullCells g"
  shows "\<exists>g' i'. placeRandom rand t count (g, i) = Some (g', i')"
  using placeLoop_total [OF assms(1), of "(g, i)" t count 0 0] assms(2)
  by (simp add: placeRandom_def)

lemma placeRandom_placedOn:
  assumes "t \<noteq> EMPTY" and "fullCells g" and "placeRandom rand t count (g, i) = Some (g', i')"
  shows "placedOn t g g'"
  using placeLoop_placedOn [OF assms(1), of "(g, i)" rand count 0 0 "(g', i')"] assms(2,3)
  by (simp add: placeRandom_def)

lemma placedOn_fullCells: "placedOn t g g' \<Longrightarrow> fullCells g'"
  by (simp add: placedOn_def)

lemma placed_cell:
  assumes "generated b x y"
    and "c1 = b \<or> (ctype b = EMPTY \<and> out \<and> c1 = b\<lparr>ctype := VICTIM\<rparr>)"
    and "c = c1 \<or> (ctype c1 = EMPTY \<and> out \<and> c = c1\<lparr>ctype := FIRE\<rparr>)"
  shows "(ctype c = VICTIM \<or> ctype c = FIRE \<longrightarrow> ctype b = EMPTY \<and> out)
    \<and> (revealed c \<longleftrightarrow> x < 2 \<and> y < 2)"
  using assms by (auto simp: generated_def newCell_def)

text \<open>
  Claim C10. For every random stream with draws in \<open>[0, 1)\<close> and every scenario, the
  initialisation returns a grid of 15 by 15 cells that comes from the generated grid by
  turning Empty cells outside the corner \<open>x \<le> 2, y \<le> 2\<close> into victims and then Empty
  cells outside that corner into fires, and by nothing else. So every Victim or Fire
  cell of the result was Empty in the generated grid and does not lie in that 3 by 3
  corner, while the revealed cells are exactly the 2 by 2 corner \<open>x < 2, y < 2\<close>.
\<close>

theorem initSimulation_placement:
  assumes "\<forall>i. 0 \<le> rand i \<and> rand i < 1"
  shows "\<exists>base n g1 m g.
      generateGrid scenario rand = (base, n)
      \<and> placeRandom rand VICTIM (victimCount scenario) (base, n) = Some (g1, m)
      \<and> initGrid scenario rand = Some g
      \<and> fullCells g \<and> placedOn VICTIM base g1 \<and> placedOn FIRE g1 g
      \<and> (\<forall>y < 15. \<forall>x < 15.
            (ctype (g ! y ! x) = VICTIM \<or> ctype (g ! y ! x) = FIRE \<longrightarrow>
               ctype (base ! y ! x) = EMPTY \<and> \<not> (x \<le> 2 \<and> y \<le> 2))
            \<and> (revealed (g ! y ! x) \<longleftrightarrow> x < 2 \<and> y < 2))"
proof -
  obtain base n where gen: "generateGrid scenario rand = (base, n)"
    by (cases "generateGrid scenario rand")
  note fb = generateGrid_generated(1) [OF gen]
  obtain g1 m where v: "placeRandom rand VICTIM (victimCount scenario) (base, n) = Some (g1, m)"
    using placeRandom_total [OF assms fb] by blast
  have p1: "placedOn VICTIM base g1"
    using placeRandom_placedOn [OF _ fb v] by simp
  note f1 = placedOn_fullCells [OF p1]
  obtain g k where f: "placeRandom rand FIRE (fireCount scenario) (g1, m) = Some (g, k)"
    using placeRandom_total [OF assms f1] by blast
  have p2: "placedOn FIRE g1 g"
    using placeRandom_placedOn [OF _ f1 f] by simp
  have init: "initGrid scenario rand = Some g"
    using gen v f by (simp add: initGrid_def)
  have cells: "(ctype (g ! y ! x) = VICTIM \<or> ctype (g ! y ! x) = FIRE \<longrightarrow>
               ctype (base ! y ! x) = EMPTY \<and> \<not> (x \<le> 2 \<and> y \<le> 2))
            \<and> (revealed (g ! y ! x) \<longleftrightarrow> x < 2 \<and> y < 2)"
    if yx: "y < 15" "x < 15" for y x
  proof -
    have a: "generated (base ! y ! x) (int x) (int y)"
      using generateGrid_generated(2) [OF gen yx] .
    have b: "g1 ! y ! x = base ! y ! x \<or>
        (ctype (base ! y ! x) = EMPTY \<and> (2 < x \<or> 2 < y)
         \<and> g1 ! y ! x = (base ! y ! x)\<lparr>ctype := VICTIM\<rparr>)"
      using p1 yx unfolding placedOn_def by blast
    have c: "g ! y ! x = g1 ! y ! x \<or>
        (ctype (g1 ! y ! x) = EMPTY \<and> (2 < x \<or> 2 < y)
         \<and> g ! y ! x = (g1 ! y ! x)\<lparr>ctype := FIRE\<rparr>)"
      using p2 yx unfolding placedOn_def by blast
    show ?thesis
      using placed_cell [OF a b c] by (simp add: not_le)
  qed
  have all: "\<forall>y < 15. \<forall>x < 15.
            (ctype (g ! y ! x) = VICTIM \<or> ctype (g ! y ! x) = FIRE \<longrightarrow>
               ctype (base ! y ! x) = EMPTY \<and> \<not> (x \<le> 2 \<and> y \<le> 2))
            \<and> (revealed (g ! y ! x) \<longleftrightarrow> x < 2 \<and> y < 2)"
    using cells by simp
  note f2 = placedOn_fullCells [OF p2]
  show ?thesis
    by (rule exI [of _ base], rule exI [of _ n], rule exI [of _ g1], rule exI [of _ m],
        rule exI [of _ g]) (intro conjI gen v init f2 p1 p2 all)
qed

definition sampleScenario :: ScenarioConfig where
  "sampleScenario =
     \<lparr>scenarioName = ''Procedural Random'', obstacleDensity = 0.2,
      victimCount = 3, fireCount = 4\<rparr>"

definition sampleRand :: "nat \<Rightarrow> real" where
  "sampleRand i = real ((7 * i) mod 10) / 10"

theorem initSimulation_placement_witness:
  "\<exists>base n g1 m g.
      generateGrid sampleScenario sampleRand = (base, n)
      \<and> placeRandom sampleRand VICTIM (victimCount sampleScenario) (base, n) = Some (g1, m)
      \<and> initGrid sampleScenario sampleRand = Some g
      \<and> fullCells g \<and> placedOn VICTIM base g1 \<and> placedOn FIRE g1 g
      \<and> (ctype (g ! 2 ! 2) \<noteq> VICTIM \<and> ctype (g ! 2 ! 2) \<noteq> FIRE)"
proof -
  have h: "\<forall>i. 0 \<le> sampleRand i \<and> sampleRand i < 1"
    by (simp add: sampleRand_def)
  show ?thesis
    using initSimulation_placement [OF h, of sampleScenario]
  proof (elim exE conjE)
    fix base n g1 m g
    assume a: "generateGrid sampleScenario sampleRand = (base, n)"
      "placeRandom sampleRand VICTIM (victimCount sampleScenario) (base, n) = Some (g1, m)"
      "initGrid sampleScenario sampleRand = Some g"
      "fullCells g" "placedOn VICTIM base g1" "placedOn FIRE g1 g"
    assume c: "\<forall>y < 15. \<forall>x < 15.
            (ctype (g ! y ! x) = VICTIM \<or> ctype (g ! y ! x) = FIRE \<longrightarrow>
               ctype (base ! y ! x) = EMPTY \<and> \<not> (x \<le> 2 \<and> y \<le> 2))
            \<and> (revealed (g ! y ! x) \<longleftrightarrow> x < 2 \<and> y < 2)"
    have "(ctype (g ! 2 ! 2) = VICTIM \<or> ctype (g ! 2 ! 2) = FIRE \<longrightarrow>
               ctype (base ! 2 ! 2) = EMPTY \<and> \<not> ((2::nat) \<le> 2 \<and> (2::nat) \<le> 2))"
      using c [rule_format, of 2 2] by simp
    then have b: "ctype (g ! 2 ! 2) \<noteq> VICTIM \<and> ctype (g ! 2 ! 2) \<noteq> FIRE"
      by simp
    show ?thesis
      by (rule exI [of _ base], rule exI [of _ n], rule exI [of _ g1], rule exI [of _ m],
          rule exI [of _ g]) (intro conjI a b)
  qed
qed

section \<open>Path planner (services/navigation.ts, planPath)\<close>

text \<open>
  A search node. Nodes are never changed once made, so a node holds its parent by
  value.
\<close>

datatype Node =
  Node (node_x: int) (node_y: int) (node_g: real) (node_h: real) (node_f: real)
    (node_parent: "Node option")

definition nodeAt :: "Node \<Rightarrow> Coordinates" where
  "nodeAt n = (node_x n, node_y n)"

text \<open>The \<open>while (curr)\<close> loop: the node's coordinates, then its ancestors'.\<close>

fun pathTo :: "Node \<Rightarrow> Coordinates list" where
  "pathTo (Node x y g h f p) = (x, y) # (case p of None \<Rightarrow> [] | Some q \<Rightarrow> pathTo q)"

definition neighbors :: "(int \<times> int) list" where
  "neighbors = [(0, - 1), (0, 1), (- 1, 0), (1, 0)]"

text \<open>
  The body of the loop over the four offsets; the result is the open list after it,
  or \<open>None\<close> for the TypeError of reading a cell the grid does not have. The closed
  list is the set of coordinates whose keys it holds. Where a node with the neighbour's
  coordinates is already on the open list, the open list stays as it is: with a cost no
  better the loop continues, and with a better cost the new node is built but pushed
  only \<open>if (!existingNode)\<close>.
\<close>

definition visitNeighbor ::
  "Coordinates \<Rightarrow> Grid \<Rightarrow> Coordinates set \<Rightarrow> Node \<Rightarrow> int \<times> int \<Rightarrow> Node list
   \<Rightarrow> Node list option" where
  "visitNeighbor target worldModel closedList currentNode offset openList =
     (let nx = node_x currentNode + fst offset;
          ny = node_y currentNode + snd offset
      in if nx < 0 \<or> nx \<ge> GRID_SIZE \<or> ny < 0 \<or> ny \<ge> GRID_SIZE then Some openList
         else if (nx, ny) \<in> closedList then Some openList
         else
           (case cellAt worldModel nx ny of
              None \<Rightarrow> None
            | Some cell \<Rightarrow>
                if ctype cell = WALL \<and> revealed cell then Some openList
                else
                  (let gCost = node_g currentNode + orDefault (MOVEMENT_COST (ctype cell)) 1;
                       hCost = of_int (\<bar>nx - fst target\<bar> + \<bar>ny - snd target\<bar>);
                       fCost = gCost + hCost;
                       existingNode = find (\<lambda>n. node_x n = nx \<and> node_y n = ny) openList
                   in case existingNode of
                        Some e \<Rightarrow>
                          if gCost \<ge> node_g e then Some openList
                          else Some openList
                      | None \<Rightarrow>
                          Some (openList @ [Node nx ny gCost hCost fCost (Some currentNode)]))))"

fun expandNeighbors ::
  "Coordinates \<Rightarrow> Grid \<Rightarrow> Coordinates set \<Rightarrow> Node \<Rightarrow> (int \<times> int) list \<Rightarrow> Node list
   \<Rightarrow> Node list option" where
  "expandNeighbors target worldModel closedList currentNode [] openList = Some openList"
| "expandNeighbors target worldModel closedList currentNode (offset # offsets) openList =
     (case visitNeighbor target worldModel closedList currentNode offset openList of
        None \<Rightarrow> None
      | Some openList' \<Rightarrow>
          expandNeighbors target worldModel closedList currentNode offsets openList')"

text \<open>In-bounds coordinates that are neither closed nor on the open list.\<close>

definition unseen :: "Node list \<Rightarrow> Coordinates set \<Rightarrow> Coordinates set" where
  "unseen openList closedList =
     {c \<in> {0..<GRID_SIZE} \<times> {0..<GRID_SIZE}. c \<notin> closedList \<and> c \<notin> nodeAt ` set openList}"

definition planMeasure :: "Node list \<Rightarrow> Coordinates set \<Rightarrow> nat" where
  "planMeasure openList closedList = 2 * card (unseen openList closedList) + length openList"

lemma finite_unseen: "finite (unseen openList closedList)"
  by (simp add: unseen_def)

lemma visitNeighbor_cases:
  assumes "visitNeighbor target worldModel closedList currentNode offset openList = Some openList'"
  shows "openList' = openList \<or>
    (\<exists>n. openList' = openList @ [n] \<and> nodeAt n \<in> unseen openList closedList)"
proof -
  define nx ny where "nx = node_x currentNode + fst offset"
    and "ny = node_y currentNode + snd offset"
  note v = assms [unfolded visitNeighbor_def Let_def, folded nx_def ny_def]
  show ?thesis
  proof (cases "nx < 0 \<or> nx \<ge> GRID_SIZE \<or> ny < 0 \<or> ny \<ge> GRID_SIZE \<or> (nx, ny) \<in> closedList")
    case True
    then show ?thesis
      using v by (auto split: if_splits)
  next
    case inside: False
    then obtain cell where cell: "cellAt worldModel nx ny = Some cell"
      using v by (auto split: if_splits option.splits)
    show ?thesis
    proof (cases "ctype cell = WALL \<and> revealed cell")
      case True
      then show ?thesis
        using v inside cell by (auto split: if_splits)
    next
      case free: False
      show ?thesis
      proof (cases "find (\<lambda>n. node_x n = nx \<and> node_y n = ny) openList")
        case (Some e)
        then show ?thesis
          using v inside cell free by (auto split: if_splits)
      next
        case None
        then obtain n where n: "openList' = openList @ [n]" "nodeAt n = (nx, ny)"
          using v inside cell free by (auto simp: nodeAt_def split: if_splits)
        have "(nx, ny) \<notin> nodeAt ` set openList"
          using None by (auto simp: find_None_iff nodeAt_def)
        then have "nodeAt n \<in> unseen openList closedList"
          using inside n(2) by (simp add: unseen_def)
        then show ?thesis
          using n(1) by blast
      qed
    qed
  qed
qed

lemma visitNeighbor_measure:
  assumes "visitNeighbor target worldModel closedList currentNode offset openList = Some openList'"
  shows "planMeasure openList' closedList \<le> planMeasure openList closedList"
  using visitNeighbor_cases [OF assms]
proof
  assume "openList' = openList"
  then show ?thesis by simp
next
  assume "\<exists>n. openList' = openList @ [n] \<and> nodeAt n \<in> unseen openList closedList"
  then obtain n where n: "openList' = openList @ [n]" "nodeAt n \<in> unseen openList closedList"
    by blast
  have "unseen openList' closedList = unseen openList closedList - {nodeAt n}"
    unfolding n(1) by (auto simp: unseen_def)
  then have "card (unseen openList' closedList) = card (unseen openList closedList) - 1"
    using n(2) by (simp add: finite_unseen)
  moreover have "0 < card (unseen openList closedList)"
    using n(2) finite_unseen card_gt_0_iff by blast
  ultimately show ?thesis
    unfolding planMeasure_def n(1) by simp
qed

lemma expandNeighbors_measure:
  "expandNeighbors target worldModel closedList currentNode offsets openList = Some openList' \<Longrightarrow>
   planMeasure openList' closedList \<le> planMeasure openList closedList"
proof (induction offsets arbitrary: openList)
  case Nil
  then show ?case by simp
next
  case (Cons offset offsets)
  obtain open1 where one:
    "visitNeighbor target worldModel closedList currentNode offset openList = Some open1"
    and rest: "expandNeighbors target worldModel closedList currentNode offsets open1
      = Some openList'"
    using Cons.prems by (auto split: option.splits)
  show ?case
    using visitNeighbor_measure [OF one] Cons.IH [OF rest] by simp
qed

lemma pop_measure:
  assumes "openList \<noteq> []"
  shows "planMeasure (tl (sort_key node_f openList))
      (insert (nodeAt (hd (sort_key node_f openList))) closedList)
    < planMeasure openList closedList"
proof -
  define sorted where "sorted = sort_key node_f openList"
  have "length sorted = length openList"
    by (simp add: sorted_def)
  then have ne: "sorted \<noteq> []"
    using assms by auto
  then have split: "sorted = hd sorted # tl sorted"
    by simp
  have "set openList = set sorted"
    by (simp add: sorted_def)
  then have nodes: "nodeAt ` set openList = insert (nodeAt (hd sorted)) (nodeAt ` set (tl sorted))"
    using split by (metis image_insert list.simps(15))
  have "unseen (tl sorted) (insert (nodeAt (hd sorted)) closedList) \<subseteq> unseen openList closedList"
    unfolding unseen_def nodes by auto
  then have "card (unseen (tl sorted) (insert (nodeAt (hd sorted)) closedList))
      \<le> card (unseen openList closedList)"
    by (rule card_mono [OF finite_unseen])
  moreover have "length (tl sorted) < length openList"
    using assms by (simp add: sorted_def)
  ultimately show ?thesis
    unfolding planMeasure_def sorted_def by simp
qed

text \<open>
  The \<open>while (openList.length > 0)\<close> loop. \<open>sort_key\<close> is a stable sort, as
  \<open>Array.prototype.sort\<close> is.
\<close>

function planLoop ::
  "Coordinates \<Rightarrow> Grid \<Rightarrow> Node list \<Rightarrow> Coordinates set \<Rightarrow> Coordinates list option" where
  "planLoop target worldModel openList closedList =
     (if openList = [] then Some []
      else
        (let currentNode = hd (sort_key node_f openList);
             rest = tl (sort_key node_f openList)
         in if node_x currentNode = fst target \<and> node_y currentNode = snd target
            then Some (tl (rev (pathTo currentNode)))
            else
              (case expandNeighbors target worldModel (insert (nodeAt currentNode) closedList)
                      currentNode neighbors rest of
                 None \<Rightarrow> None
               | Some openList' \<Rightarrow>
                   planLoop target worldModel openList'
                     (insert (nodeAt currentNode) closedList))))"
  by pat_completeness auto
termination
proof (relation "measure (\<lambda>(target, worldModel, openList, closedList).
    planMeasure openList closedList)")
  show "wf (measure (\<lambda>(target, worldModel, openList, closedList).
    planMeasure openList closedList))"
    by simp
next
  fix target :: Coordinates and worldModel :: Grid and openList closedList currentNode rest
    openList'
  assume "openList \<noteq> []" and c: "currentNode = hd (sort_key node_f openList)"
    and r: "rest = tl (sort_key node_f openList)"
    and "expandNeighbors target worldModel (insert (nodeAt currentNode) closedList)
      currentNode neighbors rest = Some openList'"
  then have "planMeasure openList' (insert (nodeAt currentNode) closedList)
      < planMeasure openList closedList"
    using expandNeighbors_measure pop_measure [of openList closedList]
    by (metis le_less_trans)
  then show "((target, worldModel, openList', insert (nodeAt currentNode) closedList),
      target, worldModel, openList, closedList)
    \<in> measure (\<lambda>(target, worldModel, openList, closedList). planMeasure openList closedList)"
    by simp
qed

declare planLoop.simps [simp del]

definition planPath :: "Coordinates \<Rightarrow> Coordinates \<Rightarrow> Grid \<Rightarrow> Coordinates list option" where
  "planPath start target worldModel =
     planLoop target worldModel [Node (fst start) (snd start) 0 0 0 None] {}"

section \<open>Robot state and the application state (types.ts, App.tsx)\<close>

datatype SystemModule =
  ModSimulation | ModPerception | ModIntelligence | ModPlanning | ModControl
| ModTelemetry | ModSafety

datatype LogType = INFO | WARNING | ERROR | SUCCESS

text \<open>A log entry without its id and timestamp, which no decision reads.\<close>

record LogEntry =
  logMessage :: string
  logSource :: SystemModule
  logType :: LogType

record RobotState =
  pos :: Coordinates
  battery :: real
  health :: real
  status :: RobotStatus
  victimsRescued :: int
  firesExtinguished :: int
  path :: "Coordinates list"
  currentGoal :: "Coordinates option"
  logs :: "LogEntry list"

text \<open>The state the component keeps with \<open>useState\<close>.\<close>

record AppState =
  grid :: Grid
  robot :: RobotState
  metrics :: SimulationMetrics
  isRunning :: bool

definition createLog :: "SystemModule \<Rightarrow> string \<Rightarrow> LogType \<Rightarrow> LogEntry" where
  "createLog src msg ty = \<lparr>logMessage = msg, logSource = src, logType = ty\<rparr>"

text \<open>\<open>setRobot(prev => f(prev))\<close>.\<close>

definition setRobot :: "(RobotState \<Rightarrow> RobotState) \<Rightarrow> AppState \<Rightarrow> AppState" where
  "setRobot upd st = st\<lparr>robot := upd (robot st)\<rparr>"

definition log :: "SystemModule \<Rightarrow> string \<Rightarrow> LogType \<Rightarrow> AppState \<Rightarrow> AppState" where
  "log src msg ty = setRobot (\<lambda>prev. prev\<lparr>logs := logs prev @ [createLog src msg ty]\<rparr>)"

definition handleEmergencyStop :: "AppState \<Rightarrow> AppState" where
  "handleEmergencyStop st =
     log ModSafety ''EMERGENCY STOP TRIGGERED BY OPERATOR. ALL SYSTEMS HALTED.'' ERROR
       (setRobot (\<lambda>prev. prev\<lparr>status := EMERGENCY_STOP, path := []\<rparr>)
          (st\<lparr>isRunning := False\<rparr>))"

text \<open>
  \<open>setGrid(prev => ...)\<close> of the interaction branches: a copy of the grid in which
  the cell at \<open>nextStep\<close> has the new type.
\<close>

definition setGridType :: "Coordinates \<Rightarrow> CellType \<Rightarrow> AppState \<Rightarrow> AppState" where
  "setGridType nextStep t st = st\<lparr>grid := setType (grid st) (fst nextStep) (snd nextStep) t\<rparr>"

section \<open>The control and execution layer of the tick (App.tsx)\<close>

text \<open>
  Layer 3 of the interval callback, for a robot that is neither recharging, idle nor
  planning: one step along the path, or the end of the path. \<open>None\<close> is the TypeError
  of a path cell outside the grid.
\<close>

definition controlLayer :: "RobotConfig option \<Rightarrow> AppState \<Rightarrow> AppState option" where
  "controlLayer robotConfig st =
     (case path (robot st) of
        nextStep # remaining \<Rightarrow>
          (case cellAt (grid st) (fst nextStep) (snd nextStep) of
             None \<Rightarrow> None
           | Some targetCell \<Rightarrow>
               if ctype targetCell = FIRE then
                 Some (setRobot
                   (\<lambda>prev. prev\<lparr>battery := battery prev - 5 * configOr batteryDrainRate robotConfig,
                                firesExtinguished := firesExtinguished prev + 1\<rparr>)
                   (setGridType nextStep DEBRIS
                     (log ModControl ''Activating suppression system.'' WARNING st)))
               else if ctype targetCell = VICTIM then
                 Some (setRobot
                   (\<lambda>prev. prev\<lparr>pos := nextStep, path := tl (path prev),
                                victimsRescued := victimsRescued prev + 1,
                                battery := battery prev - 10 * configOr batteryDrainRate robotConfig\<rparr>)
                   (setGridType nextStep EMPTY
                     (log ModControl ''Victim secured. Medical protocol initiated.'' SUCCESS st)))
               else
                 (let controlResult =
                        executeControlStep (pos (robot st)) nextStep (battery (robot st))
                          (ctype targetCell) robotConfig
                  in if success controlResult then
                       Some (setRobot
                         (\<lambda>prev. prev\<lparr>pos := nextStep, path := tl (path prev),
                                      battery := newBattery controlResult, status := MOVING\<rparr>)
                         st)
                     else
                       Some (setRobot (\<lambda>prev. prev\<lparr>path := [], status := IDLE\<rparr>)
                         (log ModControl
                            (case message controlResult of
                               None \<Rightarrow> ''Movement Error''
                             | Some m \<Rightarrow> if m = [] then ''Movement Error'' else m)
                            ERROR st))))
      | [] \<Rightarrow>
          if pos (robot st) = (0, 0) \<and> battery (robot st) < MAX_BATTERY then
            Some (log ModControl ''Docked. Charging...'' INFO
                    (setRobot (\<lambda>prev. prev\<lparr>status := RECHARGING\<rparr>) st))
          else Some (setRobot (\<lambda>prev. prev\<lparr>status := IDLE\<rparr>) st))"

section \<open>The intelligence layer (App.tsx, runIntelligenceLayer)\<close>

fun actionName :: "Action \<Rightarrow> string" where
  "actionName MOVE = ''MOVE''"
| "actionName RESCUE = ''RESCUE''"
| "actionName EXTINGUISH = ''EXTINGUISH''"
| "actionName EXPLORE = ''EXPLORE''"
| "actionName RECHARGE = ''RECHARGE''"

fun priorityName :: "Priority \<Rightarrow> string" where
  "priorityName HIGH = ''HIGH''"
| "priorityName MEDIUM = ''MEDIUM''"
| "priorityName LOW = ''LOW''"

text \<open>A natural number in decimal, as a template string prints a length.\<close>

fun decimal :: "nat \<Rightarrow> string" where
  "decimal n =
     (if n < 10 then [''0123456789'' ! n]
      else decimal (n div 10) @ [''0123456789'' ! (n mod 10)])"

declare decimal.simps [simp del]

text \<open>
  The part of \<open>runIntelligenceLayer\<close> before the \<open>await\<close>, on the robot the tick
  passed in: nothing happens for a stopped robot; otherwise the status becomes Planning
  and a request is pending (the flag returned).
\<close>

definition runIntelligenceLayer_begin :: "RobotState \<Rightarrow> AppState \<Rightarrow> AppState \<times> bool" where
  "runIntelligenceLayer_begin currentRobot st =
     (if status currentRobot = EMERGENCY_STOP then (st, False)
      else (log ModIntelligence ''Acquiring situational awareness...'' INFO
              (setRobot (\<lambda>prev. prev\<lparr>status := PLANNING\<rparr>) st), True))"

text \<open>The final \<open>setRobot\<close> of \<open>runIntelligenceLayer\<close>.\<close>

definition applyPlan ::
  "DecisionResponse \<Rightarrow> RobotStatus \<Rightarrow> Coordinates list \<Rightarrow> AppState \<Rightarrow> AppState" where
  "applyPlan decision nextStatus newPath =
     setRobot (\<lambda>prev. prev\<lparr>status := nextStatus, path := newPath,
                           currentGoal := targetCoordinates decision\<rparr>)"

text \<open>
  The part after the \<open>await\<close>, run when the decision arrives, on the application
  state of that moment. \<open>currentRobot\<close> and \<open>currentGrid\<close> are the values the tick
  passed in when it made the request; \<open>rnd\<close> is the draw of \<open>Math.random\<close>. Where
  the planner or the choice of an unknown cell throws, the remaining updates do not
  happen.
\<close>

definition runIntelligenceLayer_resolve ::
  "RobotState \<Rightarrow> Grid \<Rightarrow> DecisionResponse \<Rightarrow> real \<Rightarrow> AppState \<Rightarrow> AppState" where
  "runIntelligenceLayer_resolve currentRobot currentGrid decision rnd st =
     (let st1 = log ModIntelligence
                  (''Strategy: '' @ actionName (action decision) @ '' ('' @
                   priorityName (priority decision) @ '') - '' @ reasoning decision)
                  SUCCESS st
      in if action decision = RECHARGE then
           (if pos currentRobot = (0, 0) then
              log ModControl ''Docked at charging station. Initiating recharge sequence.'' INFO
                (setRobot (\<lambda>prev. prev\<lparr>status := RECHARGING\<rparr>) st1)
            else
              (case planPath (pos currentRobot) (0, 0) currentGrid of
                 None \<Rightarrow> st1
               | Some newPath \<Rightarrow>
                   applyPlan decision MOVING newPath
                     (log ModPlanning ''Returning to base for recharge.'' WARNING st1)))
         else
           (case targetCoordinates decision of
              Some tc \<Rightarrow>
                (case planPath (pos currentRobot) tc currentGrid of
                   None \<Rightarrow> st1
                 | Some newPath \<Rightarrow>
                     if newPath = [] then
                       applyPlan decision IDLE newPath
                         (log ModPlanning ''No viable path to target. Aborting.'' WARNING st1)
                     else
                       applyPlan decision MOVING newPath
                         (log ModPlanning
                            (''Path computed: '' @ decimal (length newPath) @ '' steps.'')
                            INFO st1))
            | None \<Rightarrow>
                if action decision = EXPLORE then
                  (let unknownCells = filter (\<lambda>c. \<not> revealed c) (concat currentGrid)
                   in if unknownCells \<noteq> [] then
                        (let k = \<lfloor>rnd * of_nat (length unknownCells)\<rfloor>
                         in if 0 \<le> k \<and> nat k < length unknownCells then
                              (case planPath (pos currentRobot)
                                      (cell_x (unknownCells ! nat k), cell_y (unknownCells ! nat k))
                                      currentGrid of
                                 None \<Rightarrow> st1
                               | Some newPath \<Rightarrow>
                                   applyPlan decision MOVING newPath
                                     (log ModPlanning ''Exploration vector calculated.'' INFO st1))
                            else st1)
                      else applyPlan decision MOVING [] st1)
                else applyPlan decision MOVING [] st1))"

section \<open>Concrete worlds\<close>

text \<open>The grid whose cell at \<open>(x, y)\<close> is a freshly generated cell of type \<open>typeAt x y\<close>.\<close>

definition gridOf :: "(int \<Rightarrow> int \<Rightarrow> CellType) \<Rightarrow> Grid" where
  "gridOf typeAt =
     map (\<lambda>y. map (\<lambda>x. newCell x y (typeAt x y)) [0..GRID_SIZE - 1]) [0..GRID_SIZE - 1]"

lemma cellAt_gridOf:
  assumes "0 \<le> x" and "x < 15" and "0 \<le> y" and "y < 15"
  shows "cellAt (gridOf typeAt) x y = Some (newCell x y (typeAt x y))"
proof -
  have n: "nat x < 15" "nat y < 15"
    using assms by linarith+
  have "[0..GRID_SIZE - 1] ! nat x = x" "[0..GRID_SIZE - 1] ! nat y = y"
    using assms n by (simp_all add: columns)
  then show ?thesis
    using assms n by (simp add: cellAt_def gridOf_def GRID_SIZE_def del: upto_rec_numeral)
qed

text \<open>
  An open field with the start cell at the origin and debris on the two cells below
  it.
\<close>

definition debrisField :: Grid where
  "debrisField =
     gridOf (\<lambda>x y. if x = 0 \<and> y = 0 then START
                     else if x = 0 \<and> (y = 1 \<or> y = 2) then DEBRIS else EMPTY)"

text \<open>The cost of a path: the movement cost of every cell it enters.\<close>

definition pathCost :: "Grid \<Rightarrow> Coordinates list \<Rightarrow> real" where
  "pathCost g p =
     sum_list (map (\<lambda>(x, y). case cellAt g x y of
                                 None \<Rightarrow> 0
                               | Some c \<Rightarrow> orDefault (MOVEMENT_COST (ctype c)) 1) p)"

text \<open>A cell the planner may enter: in bounds and not a revealed Wall.\<close>

definition traversable :: "Grid \<Rightarrow> Coordinates \<Rightarrow> bool" where
  "traversable g c \<longleftrightarrow>
     0 \<le> fst c \<and> fst c < GRID_SIZE \<and> 0 \<le> snd c \<and> snd c < GRID_SIZE \<and>
     (case cellAt g (fst c) (snd c) of
        None \<Rightarrow> False
      | Some cell \<Rightarrow> \<not> (ctype cell = WALL \<and> revealed cell))"

text \<open>A 4-connected walk from \<open>p\<close> through traversable cells.\<close>

fun walk :: "Grid \<Rightarrow> Coordinates \<Rightarrow> Coordinates list \<Rightarrow> bool" where
  "walk g p [] = True"
| "walk g p (q # qs) =
     (\<bar>fst p - fst q\<bar> + \<bar>snd p - snd q\<bar> = 1 \<and> traversable g q \<and> walk g q qs)"

lemma plan_debrisField:
  "planPath (0, 0) (0, 3) debrisField = Some [(0, 1), (0, 2), (0, 3)]"
  by (simp add: planPath_def planLoop.simps visitNeighbor_def Let_def debrisField_def
      cellAt_gridOf newCell_def orDefault_def GRID_SIZE_def neighbors_def nodeAt_def)

text \<open>
  Claim C1 at a failing input. From the start cell to \<open>(0, 3)\<close> the planner
  returns the path straight down through the two debris cells, of cost 7, although the
  walk around them through Empty cells costs 5. The cell \<open>(1, 1)\<close> is first reached
  from the debris cell \<open>(0, 1)\<close>; when the cheaper way through \<open>(1, 0)\<close> is found,
  the node already on the open list keeps its cost and its parent.
\<close>

theorem planPath_not_minimal:
  "planPath (0, 0) (0, 3) debrisField = Some [(0, 1), (0, 2), (0, 3)]
   \<and> pathCost debrisField [(0, 1), (0, 2), (0, 3)] = 7
   \<and> walk debrisField (0, 0) [(1, 0), (1, 1), (1, 2), (1, 3), (0, 3)]
   \<and> last [(1, 0), (1, 1), (1, 2), (1, 3), (0, 3)] = (0, 3)
   \<and> pathCost debrisField [(1, 0), (1, 1), (1, 2), (1, 3), (0, 3)] = 5"
proof -
  have "pathCost debrisField [(0, 1), (0, 2), (0, 3)] = 7"
    and "walk debrisField (0, 0) [(1, 0), (1, 1), (1, 2), (1, 3), (0, 3)]"
    and "last [(1, 0), (1, 1), (1, 2), (1, 3), (0, 3)] = ((0, 3) :: Coordinates)"
    and "pathCost debrisField [(1, 0), (1, 1), (1, 2), (1, 3), (0, 3)] = 5"
    by (simp_all add: pathCost_def traversable_def debrisField_def cellAt_gridOf
        newCell_def orDefault_def GRID_SIZE_def)
  then show ?thesis
    using plan_debrisField by simp
qed


text \<open>An open field with a victim at \<open>(3, 0)\<close> and a fire at \<open>(0, 3)\<close>.\<close>

definition hazardField :: Grid where
  "hazardField =
     gridOf (\<lambda>x y. if x = 0 \<and> y = 0 then START
                     else if x = 3 \<and> y = 0 then VICTIM
                     else if x = 0 \<and> y = 3 then FIRE else EMPTY)"

text \<open>A robot with 3 percent of battery left and the given next step.\<close>

definition lowBattery :: "Coordinates \<Rightarrow> Coordinates \<Rightarrow> AppState" where
  "lowBattery here nextStep =
     \<lparr>grid = hazardField,
      robot = \<lparr>pos = here, battery = 3, health = 100, status = MOVING, victimsRescued = 0,
               firesExtinguished = 0, path = [nextStep], currentGoal = Some nextStep,
               logs = []\<rparr>,
      metrics = initialMetrics, isRunning = True\<rparr>"

lemma hazard_cells:
  "cellAt hazardField 3 0 = Some (newCell 3 0 VICTIM)"
  "cellAt hazardField 0 3 = Some (newCell 0 3 FIRE)"
  by (simp_all add: hazardField_def cellAt_gridOf)

text \<open>
  Claim C3 at a failing input. With 3 percent of battery and the standard profile, the
  rescue of the victim at \<open>(3, 0)\<close> counts one rescue and leaves the battery at
  \<open>-7\<close>; the suppression of the fire at \<open>(0, 3)\<close> leaves it at \<open>-2\<close>. Only the
  ordinary move floors the battery at 0.
\<close>

theorem controlLayer_battery_negative:
  "map_option (\<lambda>st. (battery (robot st), victimsRescued (robot st), pos (robot st)))
       (controlLayer (Some standardProfile) (lowBattery (2, 0) (3, 0)))
     = Some (- 7, 1, (3, 0))
   \<and> map_option (\<lambda>st. (battery (robot st), firesExtinguished (robot st), pos (robot st)))
       (controlLayer (Some standardProfile) (lowBattery (0, 2) (0, 3)))
     = Some (- 2, 1, (0, 2))"
  by (simp add: controlLayer_def lowBattery_def hazard_cells newCell_def setRobot_def
      setGridType_def log_def configOr_def orDefault_def standardProfile_def)

text \<open>The robot at the start of a mission: at the base, idle, fully charged.\<close>

definition missionStart :: AppState where
  "missionStart =
     \<lparr>grid = debrisField,
      robot = \<lparr>pos = (0, 0), battery = 100, health = 100, status = IDLE, victimsRescued = 0,
               firesExtinguished = 0, path = [], currentGoal = None, logs = []\<rparr>,
      metrics = initialMetrics, isRunning = True\<rparr>"

text \<open>
  The tick asks for a decision for the idle robot, and the operator presses the
  emergency stop while the request is pending.
\<close>

definition stoppedWhilePending :: AppState where
  "stoppedWhilePending =
     handleEmergencyStop (fst (runIntelligenceLayer_begin (robot missionStart) missionStart))"

definition rechargeDecision :: DecisionResponse where
  "rechargeDecision =
     \<lparr>reasoning = ''Battery low.'', action = RECHARGE, targetCoordinates = Some (0, 0),
      priority = HIGH\<rparr>"

definition moveDecision :: DecisionResponse where
  "moveDecision =
     \<lparr>reasoning = ''Scout east.'', action = MOVE, targetCoordinates = Some (1, 0),
      priority = MEDIUM\<rparr>"

lemma plan_east: "planPath (0, 0) (1, 0) debrisField = Some [(1, 0)]"
  by (simp add: planPath_def planLoop.simps visitNeighbor_def Let_def debrisField_def
      cellAt_gridOf newCell_def orDefault_def GRID_SIZE_def neighbors_def nodeAt_def)

lemma stopped_robot:
  "status (robot stoppedWhilePending) = EMERGENCY_STOP" "path (robot stoppedWhilePending) = []"
  by (simp_all add: stoppedWhilePending_def handleEmergencyStop_def runIntelligenceLayer_begin_def
      missionStart_def log_def setRobot_def)

text \<open>
  Claim C4 at a failing input. The robot is in EmergencyStop with an empty path when
  the pending decision resolves; a Recharge decision then puts it into Recharging, and a
  Move decision into Moving with a path of one step. The resolution is applied, not
  discarded.
\<close>

theorem runIntelligenceLayer_overrides_stop:
  "status (robot stoppedWhilePending) = EMERGENCY_STOP
   \<and> path (robot stoppedWhilePending) = []
   \<and> status (robot (runIntelligenceLayer_resolve (robot missionStart) (grid missionStart)
        rechargeDecision 0 stoppedWhilePending)) = RECHARGING
   \<and> status (robot (runIntelligenceLayer_resolve (robot missionStart) (grid missionStart)
        moveDecision 0 stoppedWhilePending)) = MOVING
   \<and> path (robot (runIntelligenceLayer_resolve (robot missionStart) (grid missionStart)
        moveDecision 0 stoppedWhilePending)) = [(1, 0)]"
proof -
  have r: "status (robot (runIntelligenceLayer_resolve (robot missionStart) (grid missionStart)
        rechargeDecision 0 stoppedWhilePending)) = RECHARGING"
    by (simp add: runIntelligenceLayer_resolve_def rechargeDecision_def missionStart_def log_def
        setRobot_def Let_def)
  have p: "planPath (pos (robot missionStart)) (1, 0) (grid missionStart) = Some [(1, 0)]"
    using plan_east by (simp add: missionStart_def)
  have m: "status (robot (runIntelligenceLayer_resolve (robot missionStart) (grid missionStart)
        moveDecision 0 stoppedWhilePending)) = MOVING
     \<and> path (robot (runIntelligenceLayer_resolve (robot missionStart) (grid missionStart)
        moveDecision 0 stoppedWhilePending)) = [(1, 0)]"
    by (simp add: runIntelligenceLayer_resolve_def moveDecision_def p applyPlan_def log_def
        setRobot_def Let_def)
  show ?thesis
    using stopped_robot r m by simp
qed

end
